theory Spec2Isabelle
  imports Complex_Main
begin

section \<open>JavaScript values, objects and arrays\<close>

text \<open>
  The runtime stores every cell as a plain object and composes cells with the
  object spread \<^verbatim>\<open>{...a, ...b}\<close>. An object is modelled by the map of its own
  properties, a spread by map addition. A property that is present with the
  value \<^verbatim>\<open>undefined\<close> is kept apart from an absent one: both read as
  \<^verbatim>\<open>undefined\<close>, but only the first overrides an older value in a spread.

  Numbers stored in cells (a numeric glyph, a numeric font weight) are integers
  here; \<^verbatim>\<open>NaN\<close>, infinities and fractions do not occur as cell values in
  this model.
\<close>

datatype jsval = Undefined | Null | Str string | Num int

type_synonym obj = "string \<rightharpoonup> jsval"

text \<open>
  An entry of a buffer array (\<^verbatim>\<open>CellValue = string | Cell\<close>): a bare glyph string
  or a cell object. \<open>Undef\<close> is what reading an index beyond the array's length
  (or a hole) yields.
\<close>

datatype cellvalue = Undef | Glyph string | CellObj obj

type_synonym buffer = "cellvalue list"

text \<open>\<^verbatim>\<open>target[i]\<close>: reading beyond the length yields \<^verbatim>\<open>undefined\<close>.\<close>

definition js_read :: "buffer \<Rightarrow> nat \<Rightarrow> cellvalue" where
  "js_read xs i = (if i < length xs then xs ! i else Undef)"

text \<open>\<^verbatim>\<open>target[i] = v\<close>: writing beyond the length extends the array, leaving holes.\<close>

definition js_write :: "buffer \<Rightarrow> nat \<Rightarrow> cellvalue \<Rightarrow> buffer" where
  "js_write xs i v =
     (if i < length xs then xs[i := v]
      else xs @ replicate (i - length xs) Undef @ [v])"

text \<open>Decimal notation of an array index, the name of an indexed property.\<close>

definition digit_char :: "nat \<Rightarrow> char" where
  "digit_char d = ''0123456789'' ! d"

fun show_nat :: "nat \<Rightarrow> string" where
  "show_nat n =
     (if n < 10 then [digit_char n]
      else show_nat (n div 10) @ [digit_char (n mod 10)])"

declare show_nat.simps [simp del]

definition show_int :: "int \<Rightarrow> string" where
  "show_int k = (if k < 0 then CHR ''-'' # show_nat (nat (- k)) else show_nat (nat k))"

text \<open>
  The own enumerable properties a spread \<^verbatim>\<open>{...v}\<close> copies: those of an object,
  none for \<^verbatim>\<open>undefined\<close>, and for a string its characters under the keys
  \<^verbatim>\<open>"0"\<close>, \<^verbatim>\<open>"1"\<close>, ...
\<close>

definition index_props :: "string \<Rightarrow> obj" where
  "index_props s = map_of (zip (map show_nat [0..<length s]) (map (\<lambda>c. Str [c]) s))"

fun spread :: "cellvalue \<Rightarrow> obj" where
  "spread Undef = Map.empty"
| "spread (Glyph s) = index_props s"
| "spread (CellObj c) = c"

text \<open>\<^verbatim>\<open>typeof v === 'object'\<close> on a buffer entry.\<close>

fun is_object :: "cellvalue \<Rightarrow> bool" where
  "is_object (CellObj c) = True"
| "is_object v = False"

text \<open>Reading a property of an object: an absent property reads as \<^verbatim>\<open>undefined\<close>.\<close>

definition field :: "obj \<Rightarrow> string \<Rightarrow> jsval" where
  "field c k = (case c k of None \<Rightarrow> Undefined | Some v \<Rightarrow> v)"

text \<open>\<^verbatim>\<open>Boolean(v)\<close> and \<^verbatim>\<open>String(v)\<close>.\<close>

fun truthy :: "jsval \<Rightarrow> bool" where
  "truthy Undefined = False"
| "truthy Null = False"
| "truthy (Str s) = (s \<noteq> [])"
| "truthy (Num n) = (n \<noteq> 0)"

fun to_string :: "jsval \<Rightarrow> string" where
  "to_string Undefined = ''undefined''"
| "to_string Null = ''null''"
| "to_string (Str s) = s"
| "to_string (Num n) = show_int n"

section \<open>The cell buffer helpers (modules/buffer.ts)\<close>

text \<open>
  Coordinates and grid dimensions are integers. The helpers mutate the target
  array in place; the model returns the new array.
\<close>

definition get :: "int \<Rightarrow> int \<Rightarrow> buffer \<Rightarrow> int \<Rightarrow> int \<Rightarrow> cellvalue" where
  "get x y target targetCols targetRows =
     (if x < 0 \<or> x \<ge> targetCols then CellObj Map.empty
      else if y < 0 \<or> y \<ge> targetRows then CellObj Map.empty
      else js_read target (nat (x + y * targetCols)))"

definition set_cell :: "cellvalue \<Rightarrow> int \<Rightarrow> int \<Rightarrow> buffer \<Rightarrow> int \<Rightarrow> int \<Rightarrow> buffer" where
  "set_cell val x y target targetCols targetRows =
     (if x < 0 \<or> x \<ge> targetCols then target
      else if y < 0 \<or> y \<ge> targetRows then target
      else js_write target (nat (x + y * targetCols)) val)"

text \<open>
  \<open>merge\<close> flattens the entry already stored at the index (a non-object entry
  \<open>e\<close> becomes \<^verbatim>\<open>{char: e}\<close>) and spreads the value over it as it is.
\<close>

fun glyph_val :: "cellvalue \<Rightarrow> jsval" where
  "glyph_val (Glyph s) = Str s"
| "glyph_val v = Undefined"

definition flatten :: "cellvalue \<Rightarrow> obj" where
  "flatten e = (if is_object e then spread e else [''char'' \<mapsto> glyph_val e])"

definition merge :: "cellvalue \<Rightarrow> int \<Rightarrow> int \<Rightarrow> buffer \<Rightarrow> int \<Rightarrow> int \<Rightarrow> buffer" where
  "merge val x y target targetCols targetRows =
     (if x < 0 \<or> x \<ge> targetCols then target
      else if y < 0 \<or> y \<ge> targetRows then target
      else let i = nat (x + y * targetCols);
               cell = flatten (js_read target i)
           in js_write target i (CellObj (cell ++ spread val)))"

text \<open>Exceptions: a JavaScript \<^verbatim>\<open>TypeError\<close>, or whatever a user hook throws.\<close>

datatype exn = TypeError | UserError string

text \<open>
  \<^verbatim>\<open>text.split('\n')\<close>: the pieces between line breaks; a string without a line
  break is one piece, and a trailing line break yields a last empty piece.
\<close>

fun split_on :: "char \<Rightarrow> string \<Rightarrow> string list" where
  "split_on sep [] = [[]]"
| "split_on sep (c # cs) =
     (if c = sep then [] # split_on sep cs
      else (case split_on sep cs of
              [] \<Rightarrow> [[c]]
            | l # ls \<Rightarrow> (c # l) # ls))"

definition newline :: char where
  "newline = CHR 0x0A"

text \<open>The argument of \<open>mergeText\<close>: a plain string or an object with a \<^verbatim>\<open>text\<close> field.\<close>

datatype text_arg = TextStr string | TextObj obj

record merge_text_result =
  offset_col :: int
  offset_row :: int
  wrapInfo :: "(cellvalue \<times> cellvalue) list"

text \<open>
  The first part of \<open>mergeText\<close>: the text and the fields to merge. For an object
  the fields are a copy of it with \<^verbatim>\<open>text\<close> deleted; for a plain string
  \<^verbatim>\<open>mergeObj\<close> stays undefined and spreads as nothing. Calling \<^verbatim>\<open>split\<close> on a
  \<^verbatim>\<open>text\<close> field that is not a string throws.
\<close>

definition text_and_fields :: "text_arg \<Rightarrow> exn + (string \<times> obj)" where
  "text_and_fields textObj =
     (case textObj of
        TextStr s \<Rightarrow> Inr (s, Map.empty)
      | TextObj ob \<Rightarrow>
          (case field ob ''text'' of
             Str t \<Rightarrow> Inr (t, ob(''text'' := None))
           | _ \<Rightarrow> Inl TypeError))"

text \<open>
  The inner \<^verbatim>\<open>forEach\<close> over the characters of one line; the state is the target
  and the variable \<^verbatim>\<open>col\<close>.
\<close>

text \<open>The value merged for one character: \<^verbatim>\<open>{ char, ...mergeObj }\<close>.\<close>

definition char_fields :: "obj \<Rightarrow> char \<Rightarrow> obj" where
  "char_fields mergeObj ch = [''char'' \<mapsto> Str [ch]] ++ mergeObj"

definition merge_char ::
  "obj \<Rightarrow> int \<Rightarrow> int \<Rightarrow> int \<Rightarrow> int \<Rightarrow> nat \<times> char \<Rightarrow> buffer \<times> int \<Rightarrow> buffer \<times> int" where
  "merge_char mergeObj x row targetCols targetRows nc st =
     (let col = x + int (fst nc)
      in (merge (CellObj (char_fields mergeObj (snd nc))) col row
            (fst st) targetCols targetRows, col))"

definition merge_line ::
  "obj \<Rightarrow> int \<Rightarrow> int \<Rightarrow> int \<Rightarrow> int \<Rightarrow> string \<Rightarrow> buffer \<times> int \<Rightarrow> buffer \<times> int" where
  "merge_line mergeObj x row targetCols targetRows line =
     fold (merge_char mergeObj x row targetCols targetRows) (enumerate 0 line)"

text \<open>
  The outer \<^verbatim>\<open>forEach\<close> over the lines; the state is the target and the variables
  \<^verbatim>\<open>col\<close>, \<^verbatim>\<open>row\<close> and \<^verbatim>\<open>wrapInfo\<close>.
\<close>

record mt_state =
  mt_target :: buffer
  mt_col :: int
  mt_row :: int
  mt_wrap :: "(cellvalue \<times> cellvalue) list"

definition merge_text_line ::
  "obj \<Rightarrow> int \<Rightarrow> int \<Rightarrow> int \<Rightarrow> string \<Rightarrow> mt_state \<Rightarrow> mt_state" where
  "merge_text_line mergeObj x targetCols targetRows line st =
     (let (target', col') =
            merge_line mergeObj x (mt_row st) targetCols targetRows line (mt_target st, mt_col st);
          first = get x (mt_row st) target' targetCols targetRows;
          last = get (x + int (length line) - 1) (mt_row st) target' targetCols targetRows
      in \<lparr>mt_target = target', mt_col = col', mt_row = mt_row st + 1,
          mt_wrap = mt_wrap st @ [(first, last)]\<rparr>)"

definition mergeText ::
  "text_arg \<Rightarrow> int \<Rightarrow> int \<Rightarrow> buffer \<Rightarrow> int \<Rightarrow> int \<Rightarrow> exn + (merge_text_result \<times> buffer)" where
  "mergeText textObj x y target targetCols targetRows =
     (case text_and_fields textObj of
        Inl e \<Rightarrow> Inl e
      | Inr (text, mergeObj) \<Rightarrow>
          (let st = fold (merge_text_line mergeObj x targetCols targetRows)
                      (split_on newline text)
                      \<lparr>mt_target = target, mt_col = x, mt_row = y, mt_wrap = []\<rparr>;
               row = max y (mt_row st - 1)
           in Inr (\<lparr>offset_col = mt_col st, offset_row = row, wrapInfo = mt_wrap st\<rparr>,
                   mt_target st)))"

section \<open>The runner (run.ts)\<close>

text \<open>
  Times are IEEE doubles, held as the rational numbers they denote: every
  subtraction, addition and division of the time gate is rounded to the nearest
  double (\<open>round_double\<close> below). Pixel offsets and cell metrics are rational
  numbers, and the quotients of the cursor are taken exactly. Grid dimensions
  are natural numbers. The cell metrics are measured once at boot and are
  positive; a property that depends on a division by them says so.

  Of the body of \<open>loop\<close> the model keeps the time gate, the frame state, the
  cursor, the buffer, the hooks, the renderer call, the request for the next call
  and the promise. It leaves out the frames-per-second estimator (its class is
  not among the sources, and only the context reads it), the best-effort write
  of the state to local storage, which never throws, and the event queue, which
  the source has commented out. The target element exists when \<open>loop\<close> runs, so
  \<open>getContext\<close> does not throw; the context it returns is reduced to the frame
  state and the grid dimensions.
\<close>

record settings =
  s_cols :: nat
  s_rows :: nat
  once :: bool
  fps :: rat
  color :: jsval
  backgroundColor :: jsval
  fontWeight :: jsval

record metrics =
  cellWidth :: rat
  lineHeight :: rat

record state =
  time :: rat
  frame :: nat
  cycle :: nat

text \<open>The input pointer, updated by the DOM event listeners.\<close>

record pointer =
  ptr_x :: rat
  ptr_y :: rat
  ptr_pressed :: bool
  ptr_px :: rat
  ptr_py :: rat
  ptr_ppressed :: bool

text \<open>
  The cursor handed to the hooks. Its field \<^verbatim>\<open>p\<close> holds three values only: it has
  no \<^verbatim>\<open>p\<close> of its own.
\<close>

record cursor_prev =
  prev_x :: rat
  prev_y :: rat
  prev_pressed :: bool

record cursor =
  cur_x :: rat
  cur_y :: rat
  cur_pressed :: bool
  cur_p :: cursor_prev

record frame_context =
  ctx_frame :: nat
  ctx_time :: rat
  ctx_cols :: nat
  ctx_rows :: nat

record coord =
  coord_x :: nat
  coord_y :: nat
  coord_index :: nat

text \<open>
  What the bounding rectangle of the target element gives on a tick: the values
  of \<^verbatim>\<open>Math.floor(rect.width / metrics.cellWidth)\<close> and
  \<^verbatim>\<open>Math.floor(rect.height / metrics.lineHeight)\<close>.
\<close>

record surface =
  fit_cols :: nat
  fit_rows :: nat

text \<open>
  A hook is arbitrary user code: it returns or throws, and either way it may have
  changed the buffer it was given. \<open>main\<close> returns a primitive value or an object
  (\<^verbatim>\<open>typeof out == 'object' && out !== null\<close>).
\<close>

datatype 'a hook_result = Returns 'a buffer | Throws exn buffer

datatype main_out = OutVal jsval | OutObj obj

type_synonym hook = "frame_context \<Rightarrow> cursor \<Rightarrow> buffer \<Rightarrow> unit hook_result"

type_synonym main_hook = "coord \<Rightarrow> frame_context \<Rightarrow> cursor \<Rightarrow> buffer \<Rightarrow> main_out hook_result"

text \<open>
  The program with its optional hooks, and the renderer chosen at start. The
  renderer is absent when the target element does not fit the renderer type: the
  variable \<^verbatim>\<open>renderer\<close> is then left unassigned, and calling its \<^verbatim>\<open>render\<close> throws.
\<close>

record 'r program =
  pre :: "hook option"
  main :: "main_hook option"
  post :: "hook option"
  renderer :: "(frame_context \<Rightarrow> buffer \<Rightarrow> 'r \<Rightarrow> exn + 'r) option"

text \<open>
  The promise returned by \<open>run\<close>. Its executor takes \<^verbatim>\<open>resolve\<close> only; \<open>loop\<close> runs
  later, as a callback of \<^verbatim>\<open>requestAnimationFrame\<close>, outside the executor.
\<close>

datatype 'a promise = Pending | Fulfilled 'a | Rejected exn

text \<open>
  The variables of the closure of \<open>run\<close> that \<open>loop\<close> reads and writes.
  \<open>scheduled\<close> tells whether a call of \<^verbatim>\<open>requestAnimationFrame(loop)\<close> is pending;
  \<open>seen_cursor\<close> records the cursor object built by the latest accepted tick, the
  one its hooks receive.
\<close>

record 'r runner =
  state :: state
  timeSample :: rat
  timeOffset :: rat
  pointer :: pointer
  cols :: "nat option"
  rows :: "nat option"
  buffer :: buffer
  scheduled :: bool
  ready :: "frame_context promise"
  seen_cursor :: "cursor option"
  rstate :: 'r

text \<open>The closure as \<open>boot\<close> leaves it, with \<open>st\<close> the (possibly restored) state.\<close>

definition init_runner :: "state \<Rightarrow> 'r \<Rightarrow> 'r runner" where
  "init_runner st rs =
     \<lparr>state = st, timeSample = 0, timeOffset = time st,
      pointer = \<lparr>ptr_x = 0, ptr_y = 0, ptr_pressed = False,
                 ptr_px = 0, ptr_py = 0, ptr_ppressed = False\<rparr>,
      cols = None, rows = None, buffer = [], scheduled = True, ready = Pending,
      seen_cursor = None, rstate = rs\<rparr>"

text \<open>The listeners: a move stores the offset from the element's corner.\<close>

definition pointerMove :: "rat \<Rightarrow> rat \<Rightarrow> 'r runner \<Rightarrow> 'r runner" where
  "pointerMove ox oy r = r\<lparr>pointer := (pointer r)\<lparr>ptr_x := ox, ptr_y := oy\<rparr>\<rparr>"

definition pointerDown :: "'r runner \<Rightarrow> 'r runner" where
  "pointerDown r = r\<lparr>pointer := (pointer r)\<lparr>ptr_pressed := True\<rparr>\<rparr>"

definition pointerUp :: "'r runner \<Rightarrow> 'r runner" where
  "pointerUp r = r\<lparr>pointer := (pointer r)\<lparr>ptr_pressed := False\<rparr>\<rparr>"

text \<open>
  The arithmetic of doubles. The binade of a positive number \<open>x\<close> is the exponent
  \<open>b\<close> with \<open>2\<^sup>b \<le> x < 2\<^sup>b\<^sup>+\<^sup>1\<close>; it is found by halving a number that is at least 2
  and doubling one that is below 1.
\<close>

function exp_up :: "rat \<Rightarrow> int" where
  "exp_up x = (if 2 \<le> x then exp_up (x / 2) + 1 else 0)"
  by pat_completeness auto
termination
proof (relation "measure (\<lambda>x. nat \<lfloor>x\<rfloor>)")
  show "wf (measure (\<lambda>x::rat. nat \<lfloor>x\<rfloor>))" by simp
next
  fix x :: rat
  assume x: "2 \<le> x"
  then have "x / 2 \<le> x - 1" by simp
  then have "\<lfloor>x / 2\<rfloor> \<le> \<lfloor>x - 1\<rfloor>" by (rule floor_mono)
  moreover have "2 \<le> \<lfloor>x\<rfloor>" using x by (simp add: le_floor_iff)
  ultimately show "(x / 2, x) \<in> measure (\<lambda>x. nat \<lfloor>x\<rfloor>)" by simp
qed

function exp_down :: "rat \<Rightarrow> int" where
  "exp_down x = (if 0 < x \<and> x < 1 then exp_down (2 * x) - 1 else 0)"
  by pat_completeness auto
termination
proof (relation "measure (\<lambda>x. nat \<lceil>1 / x\<rceil>)")
  show "wf (measure (\<lambda>x::rat. nat \<lceil>1 / x\<rceil>))" by simp
next
  fix x :: rat
  assume x: "0 < x \<and> x < 1"
  define y where "y = 1 / x"
  have y: "1 < y" using x by (simp add: y_def)
  have c: "2 \<le> \<lceil>y\<rceil>" using y by (simp add: less_ceiling_iff)
  have c2: "(2::rat) \<le> of_int \<lceil>y\<rceil>" using c by linarith
  have yc: "y \<le> of_int \<lceil>y\<rceil>" by (rule le_of_int_ceiling)
  have "y / 2 \<le> of_int \<lceil>y\<rceil> - 1" using c2 yc by linarith
  then have "y / 2 \<le> of_int (\<lceil>y\<rceil> - 1)" by (simp only: of_int_diff of_int_1)
  then have "\<lceil>y / 2\<rceil> \<le> \<lceil>y\<rceil> - 1" by (rule ceiling_le)
  then have lt: "\<lceil>y / 2\<rceil> < \<lceil>y\<rceil>" and pos: "0 < \<lceil>y\<rceil>"
    using c by simp_all
  have "1 / (2 * x) = y / 2" by (simp add: y_def)
  then have "nat \<lceil>1 / (2 * x)\<rceil> < nat \<lceil>1 / x\<rceil>"
    using lt pos unfolding y_def by (simp only: zless_nat_conj)
  then show "(2 * x, x) \<in> measure (\<lambda>x. nat \<lceil>1 / x\<rceil>)"
    by simp
qed

declare exp_up.simps [simp del] exp_down.simps [simp del]

definition binade :: "rat \<Rightarrow> int" where
  "binade x = (if 1 \<le> x then exp_up x else exp_down x)"

text \<open>Rounding to the nearest integer, a tie to the even one.\<close>

definition round_even :: "rat \<Rightarrow> int" where
  "round_even q =
     (if q - of_int \<lfloor>q\<rfloor> < 1 / 2 then \<lfloor>q\<rfloor>
      else if 1 / 2 < q - of_int \<lfloor>q\<rfloor> then \<lfloor>q\<rfloor> + 1
      else if even \<lfloor>q\<rfloor> then \<lfloor>q\<rfloor> else \<lfloor>q\<rfloor> + 1)"

text \<open>
  The double nearest to \<open>x\<close>: \<open>x\<close> with its significand rounded to 53 binary
  digits, a tie to the even significand. The exponent is not bounded: the times
  of the loop are far from the largest double, and a difference of two doubles
  that is as small as a subnormal number is a double already.
\<close>

definition round_double :: "rat \<Rightarrow> rat" where
  "round_double x =
     (if x = 0 then 0
      else sgn x * of_int (round_even (\<bar>x\<bar> / 2 powi (binade \<bar>x\<bar> - 52)))
             * 2 powi (binade \<bar>x\<bar> - 52))"

text \<open>
  \<^verbatim>\<open>delta < interval\<close> with \<^verbatim>\<open>delta = t - timeSample\<close> and
  \<^verbatim>\<open>interval = 1000 / settings.fps\<close>, both rounded; \<open>elapsed\<close> is the exact
  difference. For \<^verbatim>\<open>fps = 0\<close> the interval is \<^verbatim>\<open>Infinity\<close> and every tick is below
  it.
\<close>

definition below_interval :: "rat \<Rightarrow> rat \<Rightarrow> bool" where
  "below_interval elapsed f =
     (if f = 0 then True else round_double elapsed < round_double (1000 / f))"

text \<open>
  The remainder operator \<^verbatim>\<open>%\<close>: the quotient is truncated towards zero. The
  remainder of two doubles is a double, so nothing is rounded here.
\<close>

definition js_rem :: "rat \<Rightarrow> rat \<Rightarrow> rat" where
  "js_rem a b = a - b * of_int (if 0 \<le> a / b then \<lfloor>a / b\<rfloor> else \<lceil>a / b\<rceil>)"

definition getContext :: "state \<Rightarrow> settings \<Rightarrow> surface \<Rightarrow> frame_context" where
  "getContext st s sf =
     \<lparr>ctx_frame = frame st, ctx_time = time st,
      ctx_cols = (if s_cols s \<noteq> 0 then s_cols s else fit_cols sf),
      ctx_rows = (if s_rows s \<noteq> 0 then s_rows s else fit_rows sf)\<rparr>"

definition make_cursor :: "frame_context \<Rightarrow> metrics \<Rightarrow> pointer \<Rightarrow> cursor" where
  "make_cursor c m p =
     \<lparr>cur_x = min (of_nat (ctx_cols c) - 1) (ptr_x p / cellWidth m),
      cur_y = min (of_nat (ctx_rows c) - 1) (ptr_y p / lineHeight m),
      cur_pressed = ptr_pressed p,
      cur_p = \<lparr>prev_x = ptr_px p / cellWidth m,
               prev_y = ptr_py p / lineHeight m,
               prev_pressed = ptr_ppressed p\<rparr>\<rparr>"

definition store_previous :: "pointer \<Rightarrow> pointer" where
  "store_previous p = p\<lparr>ptr_px := ptr_x p, ptr_py := ptr_y p, ptr_ppressed := ptr_pressed p\<rparr>"

text \<open>Step 1: on a change of the grid dimensions the buffer is resized and refilled.\<close>

definition default_cell :: "settings \<Rightarrow> obj" where
  "default_cell s =
     [''char'' \<mapsto> Str '' '', ''color'' \<mapsto> color s,
      ''backgroundColor'' \<mapsto> backgroundColor s, ''fontWeight'' \<mapsto> fontWeight s]
     ++ [''char'' \<mapsto> Str '' '']"

definition set_length :: "buffer \<Rightarrow> nat \<Rightarrow> buffer" where
  "set_length b n = take n b @ replicate (n - length b) Undef"

definition fill_cells :: "obj \<Rightarrow> buffer \<Rightarrow> buffer" where
  "fill_cells c b = fold (\<lambda>i b'. js_write b' i (CellObj c)) [0..<length b] b"

definition normalize_buffer :: "settings \<Rightarrow> frame_context \<Rightarrow> 'r runner \<Rightarrow> 'r runner" where
  "normalize_buffer s c r =
     (if cols r \<noteq> Some (ctx_cols c) \<or> rows r \<noteq> Some (ctx_rows c)
      then r\<lparr>cols := Some (ctx_cols c), rows := Some (ctx_rows c),
             buffer := fill_cells (default_cell s)
                         (set_length (buffer r) (ctx_cols c * ctx_rows c))\<rparr>
      else r)"

text \<open>Steps 2 and 4: \<open>pre\<close> and \<open>post\<close>, if defined.\<close>

definition call_hook :: "hook option \<Rightarrow> frame_context \<Rightarrow> cursor \<Rightarrow> buffer \<Rightarrow> (exn \<times> buffer) + buffer" where
  "call_hook h c cur b =
     (case h of
        None \<Rightarrow> Inr b
      | Some f \<Rightarrow> (case f c cur b of
                     Throws e b' \<Rightarrow> Inl (e, b')
                   | Returns u b' \<Rightarrow> Inr b'))"

text \<open>
  Step 3: \<open>main\<close> once per cell, row by row. The value returned is merged onto the
  cell, then a falsy \<^verbatim>\<open>char\<close> other than the number 0 is replaced by a space.
\<close>

definition merge_out :: "cellvalue \<Rightarrow> main_out \<Rightarrow> obj" where
  "merge_out e out =
     (case out of
        OutObj ob \<Rightarrow> spread e ++ ob
      | OutVal v \<Rightarrow> spread e ++ [''char'' \<mapsto> v])"

definition fix_char :: "obj \<Rightarrow> obj" where
  "fix_char c =
     (if \<not> truthy (field c ''char'') \<and> field c ''char'' \<noteq> Num 0
      then c(''char'' \<mapsto> Str '' '') else c)"

definition main_cell ::
  "main_hook \<Rightarrow> frame_context \<Rightarrow> cursor \<Rightarrow> nat \<Rightarrow> nat \<Rightarrow> buffer \<Rightarrow> (exn \<times> buffer) + buffer" where
  "main_cell f c cur j i b =
     (let idx = i + j * ctx_cols c
      in case f \<lparr>coord_x = i, coord_y = j, coord_index = idx\<rparr> c cur b of
           Throws e b' \<Rightarrow> Inl (e, b')
         | Returns out b' \<Rightarrow>
             Inr (js_write b' idx (CellObj (fix_char (merge_out (js_read b' idx) out)))))"

text \<open>A counting \<^verbatim>\<open>for\<close> loop whose body may throw.\<close>

fun for_loop :: "(nat \<Rightarrow> 's \<Rightarrow> 'e + 's) \<Rightarrow> nat list \<Rightarrow> 's \<Rightarrow> 'e + 's" where
  "for_loop body [] s = Inr s"
| "for_loop body (i # is) s =
     (case body i s of
        Inl e \<Rightarrow> Inl e
      | Inr s' \<Rightarrow> for_loop body is s')"

definition call_main ::
  "main_hook option \<Rightarrow> frame_context \<Rightarrow> cursor \<Rightarrow> buffer \<Rightarrow> (exn \<times> buffer) + buffer" where
  "call_main h c cur b =
     (case h of
        None \<Rightarrow> Inr b
      | Some f \<Rightarrow>
          for_loop (\<lambda>j. for_loop (\<lambda>i. main_cell f c cur j i) [0..<ctx_cols c])
            [0..<ctx_rows c] b)"

definition frame_hooks ::
  "'r program \<Rightarrow> frame_context \<Rightarrow> cursor \<Rightarrow> buffer \<Rightarrow> (exn \<times> buffer) + buffer" where
  "frame_hooks p c cur b =
     (case call_hook (pre p) c cur b of
        Inl e \<Rightarrow> Inl e
      | Inr b1 \<Rightarrow>
          (case call_main (main p) c cur b1 of
             Inl e \<Rightarrow> Inl e
           | Inr b2 \<Rightarrow> call_hook (post p) c cur b2))"

text \<open>
  The timing update of an accepted tick, followed by the cursor update. The
  context is the snapshot taken before the state is advanced.
\<close>

definition accept_tick :: "settings \<Rightarrow> metrics \<Rightarrow> frame_context \<Rightarrow> rat \<Rightarrow> 'r runner \<Rightarrow> 'r runner" where
  "accept_tick s m c t r =
     (let delta = round_double (t - timeSample r);
          interval = round_double (1000 / fps s)
      in r\<lparr>timeSample := round_double (t - js_rem delta interval),
            state := (state r)\<lparr>time := round_double (t + timeOffset r),
                                frame := frame (state r) + 1\<rparr>,
            seen_cursor := Some (make_cursor c m (pointer r)),
            pointer := store_previous (pointer r)\<rparr>)"

text \<open>
  One call of \<open>loop\<close> by the host. An exception leaves the body at once: it is not
  caught anywhere, the promise is not settled and no further call is requested.
\<close>

datatype outcome = Skipped | Completed | Uncaught exn

definition loop ::
  "'r program \<Rightarrow> settings \<Rightarrow> metrics \<Rightarrow> surface \<Rightarrow> rat \<Rightarrow> 'r runner \<Rightarrow> 'r runner \<times> outcome" where
  "loop p s m sf t r0 =
     (let r = r0\<lparr>scheduled := False\<rparr>
      in if below_interval (t - timeSample r) (fps s)
         then (r\<lparr>scheduled := \<not> once s\<rparr>, Skipped)
         else
           let c = getContext (state r) s sf;
               r1 = normalize_buffer s c (accept_tick s m c t r);
               cur = make_cursor c m (pointer r)
           in case frame_hooks p c cur (buffer r1) of
                Inl (e, b) \<Rightarrow> (r1\<lparr>buffer := b\<rparr>, Uncaught e)
              | Inr b \<Rightarrow>
                  (case renderer p of
                     None \<Rightarrow> (r1\<lparr>buffer := b\<rparr>, Uncaught TypeError)
                   | Some rd \<Rightarrow>
                       (case rd c b (rstate r1) of
                          Inl e \<Rightarrow> (r1\<lparr>buffer := b\<rparr>, Uncaught e)
                        | Inr rs \<Rightarrow>
                            (r1\<lparr>buffer := b, rstate := rs, scheduled := \<not> once s,
                                ready := (case ready r1 of
                                            Pending \<Rightarrow> Fulfilled c
                                          | pr \<Rightarrow> pr)\<rparr>,
                             Completed))))"

section \<open>The text renderer (core/textrenderer.ts)\<close>

text \<open>
  The state of the module (the back buffer and the dimensions of the last call)
  together with the target element: the \<^verbatim>\<open>innerHTML\<close> of each of its children, and
  a log of the rows whose \<^verbatim>\<open>innerHTML\<close> was assigned, in the order of the
  assignments. The target is an HTML element whose children are elements, so the
  guard at the head of \<open>render\<close> does not return early. The counter of updated
  rows, a local variable that is never read, is left out.
\<close>

record text_renderer =
  backBuffer :: buffer
  tr_cols :: "nat option"
  tr_rows :: "nat option"
  children :: "string list"
  mutations :: "nat list"

text \<open>Reading a property of a buffer entry that is not \<^verbatim>\<open>undefined\<close>.\<close>

definition get_prop :: "cellvalue \<Rightarrow> string \<Rightarrow> jsval" where
  "get_prop v k = field (spread v) k"

definition isSameCell :: "cellvalue \<Rightarrow> cellvalue \<Rightarrow> bool" where
  "isSameCell cellA cellB =
     (if \<not> is_object cellA then False
      else if \<not> is_object cellB then False
      else if get_prop cellA ''char'' \<noteq> get_prop cellB ''char'' then False
      else if get_prop cellA ''fontWeight'' \<noteq> get_prop cellB ''fontWeight'' then False
      else if get_prop cellA ''color'' \<noteq> get_prop cellB ''color'' then False
      else if get_prop cellA ''backgroundColor'' \<noteq> get_prop cellB ''backgroundColor'' then False
      else True)"

definition isSameCellStyle :: "cellvalue \<Rightarrow> cellvalue \<Rightarrow> bool" where
  "isSameCellStyle cellA cellB =
     (if get_prop cellA ''fontWeight'' \<noteq> get_prop cellB ''fontWeight'' then False
      else if get_prop cellA ''color'' \<noteq> get_prop cellB ''color'' then False
      else if get_prop cellA ''backgroundColor'' \<noteq> get_prop cellB ''backgroundColor'' then False
      else True)"

text \<open>The two loops that bring the number of children to the number of rows.\<close>

function expand_lines :: "nat \<Rightarrow> string list \<Rightarrow> string list" where
  "expand_lines n ch = (if length ch < n then expand_lines n (ch @ [[]]) else ch)"
  by pat_completeness auto
termination
  by (relation "measure (\<lambda>(n, ch). n - length ch)") auto

function shorten_lines :: "nat \<Rightarrow> string list \<Rightarrow> string list" where
  "shorten_lines n ch = (if length ch > n then shorten_lines n (butlast ch) else ch)"
  by pat_completeness auto
termination
  by (relation "measure (\<lambda>(n, ch). length ch)") auto

declare expand_lines.simps [simp del] shorten_lines.simps [simp del]

text \<open>
  The comparison loop of one row: a cell that is not the same as its back buffer
  entry marks the row and is copied to the back buffer.
\<close>

definition check_cell :: "buffer \<Rightarrow> nat \<Rightarrow> nat \<Rightarrow> bool \<times> buffer \<Rightarrow> bool \<times> buffer" where
  "check_cell buf offs i st =
     (let idx = i + offs;
          newCell = js_read buf idx;
          oldCell = js_read (snd st) idx
      in if \<not> isSameCell newCell oldCell
         then (True, js_write (snd st) idx (CellObj (spread newCell)))
         else st)"

text \<open>The markup of one row; the state is \<^verbatim>\<open>html\<close>, \<^verbatim>\<open>prevCell\<close> and \<^verbatim>\<open>tagIsOpen\<close>.\<close>

definition dquote :: char where
  "dquote = CHR 0x22"

definition close_tag :: "string \<times> cellvalue \<times> bool \<Rightarrow> string \<times> cellvalue \<times> bool" where
  "close_tag st =
     (case st of (html, prevCell, tagIsOpen) \<Rightarrow>
        if tagIsOpen then (html @ ''</span>'', CellObj Map.empty, False) else st)"

definition style_attr :: "settings \<Rightarrow> cellvalue \<Rightarrow> string" where
  "style_attr s currCell =
     (let c = (if get_prop currCell ''color'' = color s then Null else get_prop currCell ''color'');
          b = (if get_prop currCell ''backgroundColor'' = backgroundColor s then Null
               else get_prop currCell ''backgroundColor'');
          w = (if get_prop currCell ''fontWeight'' = fontWeight s then Null
               else get_prop currCell ''fontWeight'');
          css = (if truthy c then ''color:'' @ to_string c @ '';'' else [])
              @ (if truthy b then ''background:'' @ to_string b @ '';'' else [])
              @ (if truthy w then ''font-weight:'' @ to_string w @ '';'' else [])
      in if css \<noteq> [] then '' style='' @ [dquote] @ css @ [dquote] else [])"

text \<open>\<^verbatim>\<open>!currCell\<close>: an entry that is \<^verbatim>\<open>undefined\<close> or the empty string.\<close>

fun falsy_cell :: "cellvalue \<Rightarrow> bool" where
  "falsy_cell Undef = True"
| "falsy_cell (Glyph g) = (g = [])"
| "falsy_cell (CellObj c) = False"

definition html_cell ::
  "settings \<Rightarrow> buffer \<Rightarrow> nat \<Rightarrow> nat \<Rightarrow> string \<times> cellvalue \<times> bool \<Rightarrow> string \<times> cellvalue \<times> bool" where
  "html_cell s buf offs i st =
     (let currCell = js_read buf (i + offs)
      in if falsy_cell currCell then st
         else
           let st1 = (if truthy (get_prop currCell ''beginHTML'')
                      then (case close_tag st of (h, pc, op) \<Rightarrow>
                              (h @ to_string (get_prop currCell ''beginHTML''), pc, op))
                      else st);
               st2 = (case st1 of (h, pc, op) \<Rightarrow>
                        if \<not> isSameCellStyle currCell pc
                        then ((if op then h @ ''</span>'' else h)
                                @ ''<span'' @ style_attr s currCell @ ''>'', pc, True)
                        else st1);
               st3 = (case st2 of (h, pc, op) \<Rightarrow>
                        (h @ to_string (get_prop currCell ''char''), currCell, op))
           in if truthy (get_prop currCell ''endHTML'')
              then (case close_tag st3 of (h, pc, op) \<Rightarrow>
                      (h @ to_string (get_prop currCell ''endHTML''), pc, op))
              else st3)"

definition row_html :: "settings \<Rightarrow> buffer \<Rightarrow> nat \<Rightarrow> nat \<Rightarrow> string" where
  "row_html s buf ncols offs =
     (case fold (html_cell s buf offs) [0..<ncols] ([], CellObj Map.empty, False) of
        (html, prevCell, tagIsOpen) \<Rightarrow> if tagIsOpen then html @ ''</span>'' else html)"

text \<open>One iteration of the loop over the rows.\<close>

definition render_row :: "settings \<Rightarrow> nat \<Rightarrow> buffer \<Rightarrow> nat \<Rightarrow> text_renderer \<Rightarrow> text_renderer" where
  "render_row s ncols buf j st =
     (let offs = j * ncols;
          chk = fold (check_cell buf offs) [0..<ncols] (False, backBuffer st);
          st' = st\<lparr>backBuffer := snd chk\<rparr>
      in if \<not> fst chk then st'
         else if j < length (children st')
         then st'\<lparr>children := (children st')[j := row_html s buf ncols offs],
                  mutations := mutations st' @ [j]\<rparr>
         else st')"

definition render :: "settings \<Rightarrow> frame_context \<Rightarrow> buffer \<Rightarrow> text_renderer \<Rightarrow> text_renderer" where
  "render s c buf st =
     (let st1 = (if Some (ctx_rows c) \<noteq> tr_rows st \<or> Some (ctx_cols c) \<noteq> tr_cols st
                 then st\<lparr>tr_cols := Some (ctx_cols c), tr_rows := Some (ctx_rows c),
                         backBuffer := []\<rparr>
                 else st);
          st2 = st1\<lparr>children :=
                      shorten_lines (ctx_rows c) (expand_lines (ctx_rows c) (children st1))\<rparr>
      in fold (render_row s (ctx_cols c) buf) [0..<ctx_rows c] st2)"

text \<open>
  The words of the specification: a cell differs from another in glyph, color,
  background or weight.
\<close>

definition cell_differs :: "cellvalue \<Rightarrow> cellvalue \<Rightarrow> bool" where
  "cell_differs a b =
     (get_prop a ''char'' \<noteq> get_prop b ''char'' \<or> get_prop a ''color'' \<noteq> get_prop b ''color'' \<or>
      get_prop a ''backgroundColor'' \<noteq> get_prop b ''backgroundColor'' \<or>
      get_prop a ''fontWeight'' \<noteq> get_prop b ''fontWeight'')"

definition row_differs :: "nat \<Rightarrow> buffer \<Rightarrow> buffer \<Rightarrow> nat \<Rightarrow> bool" where
  "row_differs ncols buf back j =
     (\<exists>i < ncols. cell_differs (js_read buf (i + j * ncols)) (js_read back (i + j * ncols)))"

section \<open>Notions of the specification\<close>

text \<open>A coordinate is in bounds when it names a cell of the grid.\<close>

definition in_grid :: "int \<Rightarrow> int \<Rightarrow> int \<Rightarrow> int \<Rightarrow> bool" where
  "in_grid x y ncols nrows = (0 \<le> x \<and> x < ncols \<and> 0 \<le> y \<and> y < nrows)"

text \<open>
  The specification's reading of the value given to \<open>merge\<close>: a bare glyph \<open>v\<close> is
  normalized to \<^verbatim>\<open>{char: v}\<close>, an object is taken as it is.
\<close>

definition normalize_value :: "cellvalue \<Rightarrow> obj" where
  "normalize_value v = (case v of Glyph g \<Rightarrow> [''char'' \<mapsto> Str g] | _ \<Rightarrow> spread v)"


text \<open>The effect of one tick on the time sample and the frame counter.\<close>

definition gate_step :: "rat \<Rightarrow> rat \<Rightarrow> rat \<times> nat \<Rightarrow> rat \<times> nat" where
  "gate_step f t st =
     (if below_interval (t - fst st) f then st
      else (round_double (t - js_rem (round_double (t - fst st)) (round_double (1000 / f))),
            snd st + 1))"

text \<open>A value that stays as a glyph: anything truthy, and the number 0.\<close>

definition is_glyph :: "jsval \<Rightarrow> bool" where
  "is_glyph v = (truthy v \<or> v = Num 0)"



text \<open>
  The specification's reading of the offset returned by \<open>mergeText\<close>: the
  coordinate just past the last inserted character, that is, one column after
  the end of the last line, on the row of that line.
\<close>

definition just_past_last :: "int \<Rightarrow> int \<Rightarrow> string \<Rightarrow> int \<times> int" where
  "just_past_last x y text =
     (x + int (length (last (split_on newline text))),
      y + int (length (split_on newline text)) - 1)"

text \<open>
  The column of the last character of a list of lines laid out from column \<open>x\<close>:
  that of the end of the last line that is not empty, and \<open>x\<close> when all are empty.
\<close>

definition last_char_col :: "int \<Rightarrow> string list \<Rightarrow> int" where
  "last_char_col x ls =
     (case rev (filter (\<lambda>l. l \<noteq> []) ls) of
        [] \<Rightarrow> x
      | l # earlier \<Rightarrow> x + int (length l) - 1)"

text \<open>
  The value of \<^verbatim>\<open>rowNeedsUpdate\<close> after the comparison loop of row \<open>j\<close>: some cell
  of the row is not the same as its back buffer entry.
\<close>

definition row_needs_update :: "nat \<Rightarrow> buffer \<Rightarrow> buffer \<Rightarrow> nat \<Rightarrow> bool" where
  "row_needs_update ncols buf back j =
     (\<exists>i < ncols. \<not> isSameCell (js_read buf (i + j * ncols)) (js_read back (i + j * ncols)))"

text \<open>A frame: a buffer that holds a cell object for every cell of the grid.\<close>

definition is_frame :: "nat \<Rightarrow> nat \<Rightarrow> buffer \<Rightarrow> bool" where
  "is_frame ncols nrows buf = (\<forall>k < ncols * nrows. is_object (js_read buf k))"

section \<open>Sample inputs\<close>

text \<open>
  Settings, programs and buffers on which the properties below are exercised.
\<close>

definition sample_settings :: settings where
  "sample_settings = \<lparr>s_cols = 4, s_rows = 4, once = False, fps = 30,
     color = Undefined, backgroundColor = Undefined, fontWeight = Undefined\<rparr>"


definition sample_metrics :: metrics where
  "sample_metrics = \<lparr>cellWidth = 10, lineHeight = 20\<rparr>"

definition sample_surface :: surface where
  "sample_surface = \<lparr>fit_cols = 0, fit_rows = 0\<rparr>"

definition sample_context :: frame_context where
  "sample_context = \<lparr>ctx_frame = 0, ctx_time = 0, ctx_cols = 1, ctx_rows = 1\<rparr>"

definition sample_cursor :: cursor where
  "sample_cursor = \<lparr>cur_x = 0, cur_y = 0, cur_pressed = False,
     cur_p = \<lparr>prev_x = 0, prev_y = 0, prev_pressed = False\<rparr>\<rparr>"

definition no_hooks :: "unit program" where
  "no_hooks = \<lparr>pre = None, main = None, post = None, renderer = Some (\<lambda>c b r. Inr r)\<rparr>"

definition throwing_main :: main_hook where
  "throwing_main co c cur b = Throws (UserError ''boom'') b"

definition throwing_program :: "unit program" where
  "throwing_program = no_hooks\<lparr>main := Some throwing_main\<rparr>"

definition red_main :: main_hook where
  "red_main co c cur b = Returns (OutObj [''color'' \<mapsto> Str ''red'']) b"

definition zero_main :: main_hook where
  "zero_main co c cur b = Returns (OutVal (Num 0)) b"




definition fresh_runner :: "unit runner" where
  "fresh_runner = init_runner \<lparr>time = 0, frame = 0, cycle = 0\<rparr> ()"



definition sample_grid :: buffer where
  "sample_grid = replicate 4 (CellObj [''char'' \<mapsto> Str '' ''])"

definition sample_text :: string where
  "sample_text = ''AB'' @ [newline] @ ''CD''"

definition char_text :: obj where
  "char_text = [''text'' \<mapsto> Str ''A'', ''char'' \<mapsto> Str ''Z'']"

definition red_text :: obj where
  "red_text = [''text'' \<mapsto> Str ''A'', ''color'' \<mapsto> Str ''red'']"

definition sample_renderer :: text_renderer where
  "sample_renderer = \<lparr>backBuffer = [], tr_cols = None, tr_rows = None, children = [],
     mutations = []\<rparr>"

definition ten_rows :: frame_context where
  "ten_rows = \<lparr>ctx_frame = 0, ctx_time = 0, ctx_cols = 1, ctx_rows = 10\<rparr>"

definition frame_a :: buffer where
  "frame_a = replicate 10 (CellObj [''char'' \<mapsto> Str ''a''])"

definition frame_b :: buffer where
  "frame_b = frame_a[2 := CellObj [''char'' \<mapsto> Str ''b'']]"

section \<open>Properties of arrays and objects\<close>

lemma js_read_write: "js_read (js_write xs i v) j = (if j = i then v else js_read xs j)"
  by (auto simp: js_read_def js_write_def nth_append)


lemma index_props_single: "index_props [c] = [''0'' \<mapsto> Str [c]]"
  by (simp add: index_props_def show_nat.simps digit_char_def)

section \<open>get and set\<close>

text \<open>
  Claim C7. For every buffer and every in-bounds coordinate, \<open>get\<close> after \<open>set\<close>
  returns the value that was set. For every out-of-bounds coordinate \<open>set\<close> leaves
  the buffer unchanged and \<open>get\<close> returns the empty object. Neither function has
  a path that throws: both are total and return a plain value.
\<close>

theorem get_set_roundtrip:
  "(in_grid x y ncols nrows \<longrightarrow>
      get x y (set_cell v x y target ncols nrows) ncols nrows = v) \<and>
   (\<not> in_grid x y ncols nrows \<longrightarrow>
      set_cell v x y target ncols nrows = target \<and>
      get x y target ncols nrows = CellObj Map.empty)"
  by (auto simp: in_grid_def get_def set_cell_def js_read_write)

theorem get_set_roundtrip_witness:
  "in_grid 1 0 2 1 \<and> get 1 0 (set_cell (Glyph ''x'') 1 0 [Undef] 2 1) 2 1 = Glyph ''x'' \<and>
   \<not> in_grid 2 0 2 1 \<and> set_cell (Glyph ''x'') 2 0 [Undef] 2 1 = [Undef] \<and>
   get 2 0 [Undef] 2 1 = CellObj Map.empty"
  using get_set_roundtrip [of 1 0 2 1 "Glyph ''x''" "[Undef]"]
        get_set_roundtrip [of 2 0 2 1 "Glyph ''x''" "[Undef]"]
  by (simp add: in_grid_def)

section \<open>merge\<close>

text \<open>
  For an object value \<open>merge\<close> does what claim C6 says: in bounds, the fields of
  the value are spread over the entry stored at index \<open>x + y * cols\<close>, which is
  first normalized to \<^verbatim>\<open>{char: entry}\<close> when it is not an object, and no other
  entry changes; out of bounds the buffer is unchanged.
\<close>

lemma merge_object_shallow:
  "(in_grid x y ncols nrows \<longrightarrow>
      get x y (merge (CellObj ob) x y target ncols nrows) ncols nrows
        = CellObj (flatten (get x y target ncols nrows) ++ normalize_value (CellObj ob)) \<and>
      (\<forall>j. j \<noteq> nat (x + y * ncols) \<longrightarrow>
         js_read (merge (CellObj ob) x y target ncols nrows) j = js_read target j)) \<and>
   (\<not> in_grid x y ncols nrows \<longrightarrow> merge val x y target ncols nrows = target)"
  by (auto simp: in_grid_def get_def merge_def js_read_write Let_def normalize_value_def)

text \<open>
  Claim C6. The value of \<open>merge\<close> is declared as a \<^verbatim>\<open>CellValue\<close>, a string character
  or a cell object, and the claim has a bare glyph \<open>v\<close> normalized to
  \<^verbatim>\<open>{char: v}\<close> before it is merged, as the stored entry is. The code normalizes
  the stored entry only and spreads the value under the cast \<^verbatim>\<open>val as Cell\<close>:
  merging the glyph \<^verbatim>\<open>'A'\<close> onto the cell \<^verbatim>\<open>{char: 'x'}\<close> leaves
  \<^verbatim>\<open>{char: 'x', "0": 'A'}\<close>, where the claim gives \<^verbatim>\<open>{char: 'A'}\<close>.
\<close>

theorem merge_glyph_divergence:
  "in_grid 0 0 1 1 \<and>
   get 0 0 (merge (Glyph ''A'') 0 0 [CellObj [''char'' \<mapsto> Str ''x'']] 1 1) 1 1
     = CellObj [''char'' \<mapsto> Str ''x'', ''0'' \<mapsto> Str ''A''] \<and>
   CellObj (flatten (get 0 0 [CellObj [''char'' \<mapsto> Str ''x'']] 1 1)
              ++ normalize_value (Glyph ''A''))
     = CellObj [''char'' \<mapsto> Str ''A''] \<and>
   get_prop (get 0 0 (merge (Glyph ''A'') 0 0 [CellObj [''char'' \<mapsto> Str ''x'']] 1 1) 1 1)
     ''char'' = Str ''x''"
  by (simp add: in_grid_def get_def merge_def js_read_def js_write_def flatten_def
        normalize_value_def index_props_single get_prop_def field_def)

section \<open>Rounding to doubles\<close>

text \<open>The binade of a positive number brackets it between two powers of 2.\<close>

lemma exp_up_bounds:
  "1 \<le> x \<Longrightarrow> 2 powi exp_up x \<le> x \<and> x < 2 powi (exp_up x + 1)"
proof (induction x rule: exp_up.induct)
  case (1 x)
  show ?case
  proof (cases "2 \<le> x")
    case True
    then have "1 \<le> x / 2" by simp
    from 1(1) [OF True this]
    have "2 powi exp_up (x / 2) \<le> x / 2" "x / 2 < 2 powi (exp_up (x / 2) + 1)"
      by simp_all
    moreover have "exp_up x = exp_up (x / 2) + 1"
      using True by (subst exp_up.simps) simp
    ultimately show ?thesis
      by (simp add: power_int_add)
  next
    case False
    then have "exp_up x = 0" by (subst exp_up.simps) simp
    with False 1(2) show ?thesis by simp
  qed
qed

lemma exp_down_bounds:
  "0 < x \<Longrightarrow> x < 1 \<Longrightarrow> 2 powi exp_down x \<le> x \<and> x < 2 powi (exp_down x + 1)"
proof (induction x rule: exp_down.induct)
  case (1 x)
  have e: "exp_down x = exp_down (2 * x) - 1"
    using 1(2,3) by (subst exp_down.simps) simp
  show ?case
  proof (cases "2 * x < 1")
    case True
    from 1(1) [OF _ _ True] 1(2,3)
    have "2 powi exp_down (2 * x) \<le> 2 * x" "2 * x < 2 powi (exp_down (2 * x) + 1)"
      by simp_all
    then show ?thesis
      by (simp add: e power_int_add power_int_diff)
  next
    case False
    then have "exp_down (2 * x) = 0" by (subst exp_down.simps) simp
    with False 1(3) show ?thesis by (simp add: e power_int_minus)
  qed
qed

lemma binade_bounds:
  "0 < x \<Longrightarrow> 2 powi binade x \<le> x \<and> x < 2 powi (binade x + 1)"
  by (simp add: binade_def exp_up_bounds exp_down_bounds)

lemma binade_unique:
  assumes "0 < x" "2 powi b \<le> x" "x < 2 powi (b + 1)"
  shows "binade x = b"
proof (rule ccontr)
  assume ne: "binade x \<noteq> b"
  have bb: "2 powi binade x \<le> x" "x < 2 powi (binade x + 1)"
    using binade_bounds [OF assms(1)] by simp_all
  show False
  proof (cases "binade x < b")
    case True
    then have "(2::rat) powi (binade x + 1) \<le> 2 powi b"
      by (intro power_int_increasing) simp_all
    with bb(2) assms(2) show False by simp
  next
    case False
    with ne have "(2::rat) powi (b + 1) \<le> 2 powi binade x"
      by (intro power_int_increasing) simp_all
    with bb(1) assms(3) show False by simp
  qed
qed

lemma round_even_unique:
  assumes "\<bar>q - of_int m\<bar> < 1 / 2 \<or> \<bar>q - of_int m\<bar> = 1 / 2 \<and> even m"
  shows "round_even q = m"
proof (cases "of_int m \<le> q")
  case True
  then have "\<lfloor>q\<rfloor> = m" using assms by (intro floor_unique) auto
  then show ?thesis using assms True by (auto simp: round_even_def)
next
  case False
  then have "\<lfloor>q\<rfloor> = m - 1" using assms by (intro floor_unique) auto
  then show ?thesis using assms False by (auto simp: round_even_def)
qed


text \<open>Rounding a positive number: the result when the exponent and the nearest
  significand are known.\<close>

lemma round_double_eq:
  assumes "0 < x" "2 ^ 52 \<le> x / 2 powi e" "x / 2 powi e < 2 ^ 53"
    and "\<bar>x / 2 powi e - of_int m\<bar> < 1 / 2 \<or> \<bar>x / 2 powi e - of_int m\<bar> = 1 / 2 \<and> even m"
  shows "round_double x = of_int m * 2 powi e"
proof -
  have p: "(0::rat) < 2 powi e" by simp
  have "2 powi (e + 52) \<le> x"
    using assms(2) p by (simp add: power_int_add pos_le_divide_eq mult.commute)
  moreover have "x < 2 powi (e + 52 + 1)"
    using assms(3) p by (simp add: power_int_add pos_divide_less_eq mult.commute)
  ultimately have "binade x = e + 52"
    using assms(1) by (intro binade_unique) simp_all
  then show ?thesis
    using assms(1,4) by (simp add: round_double_def round_even_unique)
qed




lemma round_double_exact:
  assumes "0 < x" "2 ^ 52 \<le> x / 2 powi e" "x / 2 powi e < 2 ^ 53" "x / 2 powi e = of_int m"
  shows "round_double x = x"
proof -
  have "round_double x = of_int m * 2 powi e"
    using assms(1,2,3) by (rule round_double_eq) (simp add: assms(4))
  also have "\<dots> = x"
    using assms(4) by (simp add: field_simps)
  finally show ?thesis .
qed

text \<open>The interval of 30 frames per second, \<^verbatim>\<open>1000 / 30\<close>, is 33.333333333333336.\<close>

lemma interval_30: "round_double (100 / 3) = 4691249611844267 / 140737488355328"
  using round_double_eq [of "100 / 3" "- 47" 4691249611844267] by simp

section \<open>The time gate of the loop\<close>

lemma loop_skip:
  "below_interval (t - timeSample r) (fps s) \<Longrightarrow>
     loop p s m sf t r = (r\<lparr>scheduled := \<not> once s\<rparr>, Skipped)"
  by (simp add: loop_def)

lemma normalize_buffer_fields [simp]:
  "timeSample (normalize_buffer s c r) = timeSample r"
  "state (normalize_buffer s c r) = state r"
  "pointer (normalize_buffer s c r) = pointer r"
  "seen_cursor (normalize_buffer s c r) = seen_cursor r"
  "scheduled (normalize_buffer s c r) = scheduled r"
  "ready (normalize_buffer s c r) = ready r"
  "rstate (normalize_buffer s c r) = rstate r"
  by (simp_all add: normalize_buffer_def)

text \<open>
  Whatever the hooks and the renderer do on an accepted tick, the result of
  \<open>loop\<close> is the closure after the timing, cursor and resize steps, with another
  buffer, renderer state, pending call and promise.
\<close>

lemma loop_accept_shape:
  assumes "\<not> below_interval (t - timeSample r) (fps s)"
  shows "\<exists>b rs sch pr.
           fst (loop p s m sf t r)
             = (normalize_buffer s (getContext (state r) s sf)
                  (accept_tick s m (getContext (state r) s sf) t (r\<lparr>scheduled := False\<rparr>)))
               \<lparr>buffer := b, rstate := rs, scheduled := sch, ready := pr\<rparr>"
proof -
  let ?c = "getContext (state r) s sf"
  let ?r1 = "normalize_buffer s ?c (accept_tick s m ?c t (r\<lparr>scheduled := False\<rparr>))"
  have same: "?r1 = ?r1\<lparr>buffer := buffer ?r1, rstate := rstate ?r1,
                         scheduled := scheduled ?r1, ready := ready ?r1\<rparr>"
    by simp
  have upd: "\<And>b. ?r1\<lparr>buffer := b\<rparr>
               = ?r1\<lparr>buffer := b, rstate := rstate ?r1, scheduled := scheduled ?r1, ready := ready ?r1\<rparr>"
    by simp
  show ?thesis
    using assms
    apply (simp add: loop_def Let_def split: sum.splits option.splits prod.splits)
    apply (intro conjI allI impI)
    using upd apply blast+
    done
qed

lemma loop_accept_timing:
  assumes "\<not> below_interval (t - timeSample r) (fps s)"
  shows "timeSample (fst (loop p s m sf t r))
           = round_double (t - js_rem (round_double (t - timeSample r))
                                 (round_double (1000 / fps s)))"
    and "state (fst (loop p s m sf t r))
           = (state r)\<lparr>time := round_double (t + timeOffset r), frame := frame (state r) + 1\<rparr>"
    and "seen_cursor (fst (loop p s m sf t r))
           = Some (make_cursor (getContext (state r) s sf) m (pointer r))"
    and "pointer (fst (loop p s m sf t r)) = store_previous (pointer r)"
proof -
  obtain b rs sch pr where
    "fst (loop p s m sf t r)
       = (normalize_buffer s (getContext (state r) s sf)
            (accept_tick s m (getContext (state r) s sf) t (r\<lparr>scheduled := False\<rparr>)))
         \<lparr>buffer := b, rstate := rs, scheduled := sch, ready := pr\<rparr>"
    using loop_accept_shape [OF assms] by blast
  then show
    "timeSample (fst (loop p s m sf t r))
       = round_double (t - js_rem (round_double (t - timeSample r))
                             (round_double (1000 / fps s)))"
    "state (fst (loop p s m sf t r))
       = (state r)\<lparr>time := round_double (t + timeOffset r), frame := frame (state r) + 1\<rparr>"
    "seen_cursor (fst (loop p s m sf t r))
       = Some (make_cursor (getContext (state r) s sf) m (pointer r))"
    "pointer (fst (loop p s m sf t r)) = store_previous (pointer r)"
    by (simp_all add: accept_tick_def Let_def)
qed

lemma loop_gate_step:
  "(timeSample (fst (loop p s m sf t r)), frame (state (fst (loop p s m sf t r))))
     = gate_step (fps s) t (timeSample r, frame (state r))"
  by (cases "below_interval (t - timeSample r) (fps s)")
     (simp_all add: loop_skip gate_step_def loop_accept_timing)

lemma gate_step_accepted:
  "gate_step f t (ts, n) = (ts', Suc n) \<Longrightarrow> \<not> below_interval (t - ts) f"
  by (auto simp: gate_step_def)




lemma js_rem_once:
  assumes "0 < b" "b \<le> a" "a < 2 * b"
  shows "js_rem a b = a - b"
proof -
  have "\<lfloor>a / b\<rfloor> = 1"
    using assms by (intro floor_unique) (simp_all add: pos_le_divide_eq pos_divide_less_eq)
  moreover have "0 \<le> a / b" using assms by simp
  ultimately show ?thesis by (simp add: js_rem_def)
qed




lemma gate_accept:
  assumes d: "2 ^ 52 \<le> (t - ts) / 2 powi e1" "(t - ts) / 2 powi e1 < 2 ^ 53"
             "(t - ts) / 2 powi e1 = of_int m1"
    and iv: "4691249611844267 / 140737488355328 \<le> t - ts"
            "t - ts < 2 * (4691249611844267 / 140737488355328)"
    and s: "2 ^ 52 \<le> (ts + 4691249611844267 / 140737488355328) / 2 powi e2"
           "(ts + 4691249611844267 / 140737488355328) / 2 powi e2 < 2 ^ 53"
           "\<bar>(ts + 4691249611844267 / 140737488355328) / 2 powi e2 - of_int m2\<bar> < 1 / 2 \<or>
            \<bar>(ts + 4691249611844267 / 140737488355328) / 2 powi e2 - of_int m2\<bar> = 1 / 2 \<and> even m2"
  shows "gate_step 30 t (ts, n) = (of_int m2 * 2 powi e2, Suc n)"
proof -
  let ?iv = "4691249611844267 / 140737488355328 :: rat"
  have pos: "0 < t - ts" using iv(1) by simp
  have rd: "round_double (t - ts) = t - ts"
    using pos d by (rule round_double_exact)
  have nb: "\<not> below_interval (t - ts) 30"
    using iv(1) by (simp add: below_interval_def interval_30 rd)
  have rem: "js_rem (t - ts) ?iv = t - ts - ?iv"
    using iv by (intro js_rem_once) simp_all
  have p2: "0 < ts + ?iv"
  proof (rule ccontr)
    assume "\<not> 0 < ts + ?iv"
    then have "(ts + ?iv) / 2 powi e2 \<le> 0" by (simp add: divide_le_0_iff)
    with s(1) show False by simp
  qed
  have "round_double (ts + ?iv) = of_int m2 * 2 powi e2"
    using p2 s by (rule round_double_eq)
  moreover have "t - (t - ts - ?iv) = ts + ?iv" by simp
  ultimately show ?thesis
    using nb by (simp add: gate_step_def interval_30 rd rem)
qed

text \<open>
  The ticks of the sample run, 10 ms apart from 0 ms to 1000 ms: those that are
  accepted, with the time sample before and after, and those that are skipped
  with an elapsed time of 32 ms or more. The tick at 100 ms is one of these: the
  time sample is 66.66666666666667 then, the elapsed time 33.33333333333333, one
  unit in the last place below the interval.
\<close>

lemma accept_40:
  "gate_step 30 40 (0, n)
     = (4691249611844267 / 140737488355328, Suc n)"
  using gate_accept [of 40 0 "- 47" 5629499534213120 "- 47" 4691249611844267 n]
  by simp






































text \<open>The tick at 80 ms after a single accepted tick at 40 ms.\<close>

lemma accept_80_after_40:
  "gate_step 30 80 (4691249611844267 / 140737488355328, n)
     = (4691249611844267 / 70368744177664, Suc n)"
  using gate_accept [of 80 "4691249611844267 / 140737488355328" "- 47" 6567749456581973
          "- 46" 4691249611844267 n]
  by simp

lemma accepts_40: "\<not> below_interval 40 30"
  using gate_step_accepted [OF accept_40 [of 0]] by simp

lemma sample_below_40:
  "\<not> below_interval (40 - timeSample fresh_runner) (fps sample_settings)"
  by (simp add: accepts_40 sample_settings_def fresh_runner_def init_runner_def)




section \<open>Exceptions of the hooks\<close>

text \<open>
  Claim C5. The first accepted tick of a program whose \<open>main\<close> throws: the exception
  leaves \<open>loop\<close> uncaught and no further call is requested, as the claim says of
  later frames; but the promise returned by \<open>run\<close> is not rejected, it stays
  pending.
\<close>

theorem first_frame_throw_pending:
  "snd (loop throwing_program sample_settings sample_metrics sample_surface 40 fresh_runner)
     = Uncaught (UserError ''boom'') \<and>
   ready (fst (loop throwing_program sample_settings sample_metrics sample_surface 40
                 fresh_runner)) = Pending \<and>
   \<not> scheduled (fst (loop throwing_program sample_settings sample_metrics sample_surface 40
                         fresh_runner)) \<and>
   frame (state (fst (loop throwing_program sample_settings sample_metrics sample_surface 40
                        fresh_runner))) = 1"
proof -
  have dims: "\<And>st. ctx_cols (getContext st sample_settings sample_surface) = 4"
             "\<And>st. ctx_rows (getContext st sample_settings sample_surface) = 4"
    by (simp_all add: getContext_def sample_settings_def)
  have "\<And>c cur b. 0 < ctx_cols c \<Longrightarrow> 0 < ctx_rows c \<Longrightarrow>
          call_main (main throwing_program) c cur b = Inl (UserError ''boom'', b)"
    by (simp add: call_main_def upt_conv_Cons throwing_program_def throwing_main_def
          main_cell_def)
  then have hooks: "\<And>st cur b.
      frame_hooks throwing_program (getContext st sample_settings sample_surface) cur b
        = Inl (UserError ''boom'', b)"
    by (simp add: frame_hooks_def call_hook_def throwing_program_def no_hooks_def dims)
  show ?thesis
    using sample_below_40
    by (simp add: loop_def Let_def hooks accept_tick_def fresh_runner_def init_runner_def)
qed

section \<open>The cursor\<close>

text \<open>
  Claim C4, as stated, fails for negative offsets: the cursor is bounded above
  only. A pointer 5 pixels left of the element, with cells 10 pixels wide, gives
  the cursor the column \<open>-1/2\<close>, which is no cell of the grid.
\<close>

theorem cursor_negative_counterexample:
  "seen_cursor (fst (loop no_hooks sample_settings sample_metrics sample_surface 40
                       (pointerMove (- 5) 3 fresh_runner)))
     = Some \<lparr>cur_x = - (1 / 2), cur_y = 3 / 20, cur_pressed = False,
             cur_p = \<lparr>prev_x = 0, prev_y = 0, prev_pressed = False\<rparr>\<rparr>"
proof -
  have "\<not> below_interval (40 - timeSample (pointerMove (- 5) 3 fresh_runner))
            (fps sample_settings)"
    by (simp add: accepts_40 sample_settings_def fresh_runner_def init_runner_def
          pointerMove_def)
  from loop_accept_timing(3) [OF this] show ?thesis
    by (simp add: make_cursor_def getContext_def sample_settings_def sample_metrics_def
          fresh_runner_def init_runner_def pointerMove_def)
qed

text \<open>
  Claim C4, amended. With positive cell metrics, on every accepted tick the
  cursor is the pointer offset divided by the cell metrics, bounded above by the
  last column and row; for a non-negative offset and a grid that is not empty it
  is a position of the grid. The tick then stores the raw offset and the pressed state
  as the previous ones, which the listeners never touch. On the next accepted
  tick, with the same metrics, the field \<^verbatim>\<open>p\<close> of the cursor is the cursor of the
  tick before (x, y and pressed) whenever the offset of that tick lay within the
  last column and row. The field \<^verbatim>\<open>p\<close> has the three values only.
\<close>

theorem cursor_update:
  assumes metrics: "0 < cellWidth m" "0 < lineHeight m"
    and acc1: "\<not> below_interval (t1 - timeSample r0) (fps s)"
    and events: "ptr_px (pointer r1e) = ptr_px (pointer (fst (loop p s m sf1 t1 r0)))"
                "ptr_py (pointer r1e) = ptr_py (pointer (fst (loop p s m sf1 t1 r0)))"
                "ptr_ppressed (pointer r1e) = ptr_ppressed (pointer (fst (loop p s m sf1 t1 r0)))"
    and acc2: "\<not> below_interval (t2 - timeSample r1e) (fps s)"
  shows "\<exists>cur1 cur2.
           seen_cursor (fst (loop p s m sf1 t1 r0)) = Some cur1 \<and>
           seen_cursor (fst (loop p s m sf2 t2 r1e)) = Some cur2 \<and>
           cur_x cur1 = min (of_nat (ctx_cols (getContext (state r0) s sf1)) - 1)
                            (ptr_x (pointer r0) / cellWidth m) \<and>
           cur_y cur1 = min (of_nat (ctx_rows (getContext (state r0) s sf1)) - 1)
                            (ptr_y (pointer r0) / lineHeight m) \<and>
           cur_pressed cur1 = ptr_pressed (pointer r0) \<and>
           cur_x cur1 \<le> of_nat (ctx_cols (getContext (state r0) s sf1)) - 1 \<and>
           cur_y cur1 \<le> of_nat (ctx_rows (getContext (state r0) s sf1)) - 1 \<and>
           (0 \<le> ptr_x (pointer r0) \<and> 0 < ctx_cols (getContext (state r0) s sf1) \<longrightarrow>
              0 \<le> cur_x cur1) \<and>
           (0 \<le> ptr_y (pointer r0) \<and> 0 < ctx_rows (getContext (state r0) s sf1) \<longrightarrow>
              0 \<le> cur_y cur1) \<and>
           cur_x cur2 = min (of_nat (ctx_cols (getContext (state r1e) s sf2)) - 1)
                            (ptr_x (pointer r1e) / cellWidth m) \<and>
           cur_y cur2 = min (of_nat (ctx_rows (getContext (state r1e) s sf2)) - 1)
                            (ptr_y (pointer r1e) / lineHeight m) \<and>
           cur_pressed cur2 = ptr_pressed (pointer r1e) \<and>
           (ptr_x (pointer r0) / cellWidth m
              \<le> of_nat (ctx_cols (getContext (state r0) s sf1)) - 1 \<and>
            ptr_y (pointer r0) / lineHeight m
              \<le> of_nat (ctx_rows (getContext (state r0) s sf1)) - 1 \<longrightarrow>
              cur_p cur2 = \<lparr>prev_x = cur_x cur1, prev_y = cur_y cur1,
                             prev_pressed = cur_pressed cur1\<rparr>)"
proof -
  let ?c1 = "getContext (state r0) s sf1"
  let ?c2 = "getContext (state r1e) s sf2"
  let ?cur1 = "make_cursor ?c1 m (pointer r0)"
  let ?cur2 = "make_cursor ?c2 m (pointer r1e)"
  have s1: "seen_cursor (fst (loop p s m sf1 t1 r0)) = Some ?cur1"
    by (rule loop_accept_timing(3) [OF acc1])
  have s2: "seen_cursor (fst (loop p s m sf2 t2 r1e)) = Some ?cur2"
    by (rule loop_accept_timing(3) [OF acc2])
  have prev: "ptr_px (pointer r1e) = ptr_x (pointer r0)"
             "ptr_py (pointer r1e) = ptr_y (pointer r0)"
             "ptr_ppressed (pointer r1e) = ptr_pressed (pointer r0)"
    using events by (simp_all add: loop_accept_timing(4) [OF acc1] store_previous_def)
  have nonneg_x: "0 \<le> ptr_x (pointer r0) \<and> 0 < ctx_cols ?c1 \<longrightarrow> 0 \<le> cur_x ?cur1"
    using metrics by (simp add: make_cursor_def)
  have nonneg_y: "0 \<le> ptr_y (pointer r0) \<and> 0 < ctx_rows ?c1 \<longrightarrow> 0 \<le> cur_y ?cur1"
    using metrics by (simp add: make_cursor_def)
  have snap: "ptr_x (pointer r0) / cellWidth m \<le> of_nat (ctx_cols ?c1) - 1 \<and>
              ptr_y (pointer r0) / lineHeight m \<le> of_nat (ctx_rows ?c1) - 1 \<longrightarrow>
              cur_p ?cur2 = \<lparr>prev_x = cur_x ?cur1, prev_y = cur_y ?cur1,
                              prev_pressed = cur_pressed ?cur1\<rparr>"
    by (simp add: make_cursor_def prev)
  show ?thesis
    apply (rule exI [of _ ?cur1], rule exI [of _ ?cur2])
    apply (intro conjI)
                apply (rule s1)
               apply (rule s2)
              apply (simp add: make_cursor_def)
             apply (simp add: make_cursor_def)
            apply (simp add: make_cursor_def)
           apply (simp add: make_cursor_def)
          apply (simp add: make_cursor_def)
         apply (rule nonneg_x)
        apply (rule nonneg_y)
       apply (simp add: make_cursor_def)
      apply (simp add: make_cursor_def)
     apply (simp add: make_cursor_def)
    apply (rule snap)
    done
qed

theorem cursor_update_witness:
  "0 < cellWidth sample_metrics \<and> 0 < lineHeight sample_metrics \<and>
   \<not> below_interval (40 - timeSample (pointerMove 10 20 fresh_runner)) (fps sample_settings) \<and>
   \<not> below_interval
        (80 - timeSample (pointerMove 20 40
                (fst (loop no_hooks sample_settings sample_metrics sample_surface 40
                        (pointerMove 10 20 fresh_runner)))))
        (fps sample_settings) \<and>
   seen_cursor (fst (loop no_hooks sample_settings sample_metrics sample_surface 80
                  (pointerMove 20 40
                     (fst (loop no_hooks sample_settings sample_metrics sample_surface 40
                             (pointerMove 10 20 fresh_runner))))))
     = Some \<lparr>cur_x = 2, cur_y = 2, cur_pressed = False,
             cur_p = \<lparr>prev_x = 1, prev_y = 1, prev_pressed = False\<rparr>\<rparr>"
proof -
  define r0 where "r0 = pointerMove 10 20 fresh_runner"
  define r1 where "r1 = fst (loop no_hooks sample_settings sample_metrics sample_surface 40 r0)"
  define r1e where "r1e = pointerMove 20 40 r1"
  have p0: "pointer r0 = \<lparr>ptr_x = 10, ptr_y = 20, ptr_pressed = False,
                            ptr_px = 0, ptr_py = 0, ptr_ppressed = False\<rparr>"
    and ts0: "timeSample r0 = 0"
    by (simp_all add: r0_def pointerMove_def fresh_runner_def init_runner_def)
  have a1: "\<not> below_interval (40 - timeSample r0) (fps sample_settings)"
    by (simp add: ts0 accepts_40 sample_settings_def)
  have "(timeSample r1, frame (state r1)) = gate_step 30 40 (0, frame (state r0))"
    unfolding r1_def
    using loop_gate_step [of no_hooks sample_settings sample_metrics sample_surface 40 r0]
    by (simp add: ts0 sample_settings_def)
  then have ts1: "timeSample r1 = 4691249611844267 / 140737488355328"
    by (simp add: accept_40)
  have p1: "pointer r1 = store_previous (pointer r0)"
    unfolding r1_def by (rule loop_accept_timing(4) [OF a1])
  have p1e: "pointer r1e = \<lparr>ptr_x = 20, ptr_y = 40, ptr_pressed = False,
                             ptr_px = 10, ptr_py = 20, ptr_ppressed = False\<rparr>"
    and ts1e: "timeSample r1e = 4691249611844267 / 140737488355328"
    by (simp_all add: r1e_def pointerMove_def p1 p0 ts1 store_previous_def)
  have a2: "\<not> below_interval (80 - timeSample r1e) (fps sample_settings)"
    unfolding ts1e using gate_step_accepted [OF accept_80_after_40 [of 0]]
    by (simp add: sample_settings_def)
  have ev: "ptr_px (pointer r1e)
              = ptr_px (pointer (fst (loop no_hooks sample_settings sample_metrics
                                        sample_surface 40 r0)))"
           "ptr_py (pointer r1e)
              = ptr_py (pointer (fst (loop no_hooks sample_settings sample_metrics
                                        sample_surface 40 r0)))"
           "ptr_ppressed (pointer r1e)
              = ptr_ppressed (pointer (fst (loop no_hooks sample_settings sample_metrics
                                              sample_surface 40 r0)))"
    by (simp_all add: r1e_def pointerMove_def r1_def)
  have dims: "\<And>st. ctx_cols (getContext st sample_settings sample_surface) = 4"
             "\<And>st. ctx_rows (getContext st sample_settings sample_surface) = 4"
    by (simp_all add: getContext_def sample_settings_def)
  have pos: "0 < cellWidth sample_metrics" "0 < lineHeight sample_metrics"
    by (simp_all add: sample_metrics_def)
  obtain cur1 :: cursor and cur2 :: cursor where
    s2: "seen_cursor (fst (loop no_hooks sample_settings sample_metrics sample_surface 80 r1e))
           = Some cur2"
    and x1: "cur_x cur1 = 1" and y1: "cur_y cur1 = 1" and pr1: "cur_pressed cur1 = False"
    and x2: "cur_x cur2 = 2" and y2: "cur_y cur2 = 2" and pr2: "cur_pressed cur2 = False"
    and snap: "cur_p cur2 = \<lparr>prev_x = cur_x cur1, prev_y = cur_y cur1,
                               prev_pressed = cur_pressed cur1\<rparr>"
    using cursor_update [OF pos a1 ev a2, of sample_surface]
    by (auto simp: dims p0 p1e sample_metrics_def)
  have "cur2 = \<lparr>cur_x = 2, cur_y = 2, cur_pressed = False,
                 cur_p = \<lparr>prev_x = 1, prev_y = 1, prev_pressed = False\<rparr>\<rparr>"
    using x1 y1 pr1 x2 y2 pr2 snap by (cases cur2) simp
  then show ?thesis
    using pos a1 a2 s2 by (simp add: r0_def r1_def r1e_def)
qed

section \<open>The value returned by main\<close>

lemma fix_char_glyph: "is_glyph (field c ''char'') \<Longrightarrow> fix_char c = c"
  by (auto simp: fix_char_def is_glyph_def)

lemma fix_char_empty: "\<not> is_glyph (field c ''char'') \<Longrightarrow> fix_char c = c(''char'' \<mapsto> Str '' '')"
  by (auto simp: fix_char_def is_glyph_def)

lemma fix_char_other: "k \<noteq> ''char'' \<Longrightarrow> fix_char c k = c k"
  by (simp add: fix_char_def)

text \<open>
  Claim C3, as stated, fails: returning \<^verbatim>\<open>{color: 'red'}\<close> does not preserve a prior
  \<^verbatim>\<open>char\<close> that is the empty string. The merged cell is coerced like any other:
  its \<^verbatim>\<open>char\<close> becomes a space.
\<close>

theorem main_object_counterexample:
  "main_cell red_main sample_context sample_cursor 0 0 [CellObj [''char'' \<mapsto> Str []]]
     = Inr [CellObj [''char'' \<mapsto> Str '' '', ''color'' \<mapsto> Str ''red'']] \<and>
   get_prop (CellObj [''char'' \<mapsto> Str '' '', ''color'' \<mapsto> Str ''red'']) ''char''
     \<noteq> get_prop (CellObj [''char'' \<mapsto> Str []]) ''char''"
proof -
  have "fix_char ([''char'' \<mapsto> Str []] ++ [''color'' \<mapsto> Str ''red''])
          = [''char'' \<mapsto> Str '' '', ''color'' \<mapsto> Str ''red'']"
    by (rule ext) (simp add: fix_char_def field_def)
  then show ?thesis
    by (simp add: main_cell_def red_main_def sample_context_def js_read_def js_write_def
          merge_out_def get_prop_def field_def)
qed

text \<open>
  Claim C3, amended. For every cell visited by \<open>main\<close>: a returned object is
  shallow-merged onto the existing cell, and a returned primitive value replaces
  only \<^verbatim>\<open>char\<close>; then, whichever was returned, a \<^verbatim>\<open>char\<close> of the merged cell that is
  not a glyph (\<^verbatim>\<open>null\<close>, \<^verbatim>\<open>undefined\<close> or the empty string, but not the number 0)
  is replaced by a single space. So a returned object leaves every field other
  than \<^verbatim>\<open>char\<close> as merged, and returning \<^verbatim>\<open>{color: 'red'}\<close> preserves a prior \<^verbatim>\<open>char\<close>
  that is a glyph; a returned glyph, the number 0 included, replaces only
  \<^verbatim>\<open>char\<close>; a returned \<^verbatim>\<open>null\<close>, \<^verbatim>\<open>undefined\<close> or empty string leaves \<^verbatim>\<open>char\<close> a
  single space and the other fields intact.
\<close>

theorem main_cell_merge:
  assumes ret: "f \<lparr>coord_x = i, coord_y = j, coord_index = i + j * ctx_cols c\<rparr> c cur b
                  = Returns out b'"
  shows "\<exists>cell.
           main_cell f c cur j i b = Inr (js_write b' (i + j * ctx_cols c) (CellObj cell)) \<and>
           (\<forall>ob. out = OutObj ob \<longrightarrow>
              (\<forall>k. k \<noteq> ''char'' \<longrightarrow> cell k = (spread (js_read b' (i + j * ctx_cols c)) ++ ob) k) \<and>
              (is_glyph (field (spread (js_read b' (i + j * ctx_cols c)) ++ ob) ''char'') \<longrightarrow>
                 cell = spread (js_read b' (i + j * ctx_cols c)) ++ ob) \<and>
              (\<not> is_glyph (field (spread (js_read b' (i + j * ctx_cols c)) ++ ob) ''char'') \<longrightarrow>
                 cell ''char'' = Some (Str '' ''))) \<and>
           (\<forall>v. out = OutVal v \<longrightarrow>
              cell = (spread (js_read b' (i + j * ctx_cols c)))
                       (''char'' \<mapsto> (if is_glyph v then v else Str '' ''))) \<and>
           is_glyph (Num 0) \<and> \<not> is_glyph Null \<and> \<not> is_glyph Undefined \<and> \<not> is_glyph (Str [])"
proof -
  let ?old = "spread (js_read b' (i + j * ctx_cols c))"
  let ?cell = "fix_char (merge_out (js_read b' (i + j * ctx_cols c)) out)"
  have res: "main_cell f c cur j i b = Inr (js_write b' (i + j * ctx_cols c) (CellObj ?cell))"
    using ret by (simp add: main_cell_def Let_def)
  have objs: "\<forall>ob. out = OutObj ob \<longrightarrow>
      (\<forall>k. k \<noteq> ''char'' \<longrightarrow> ?cell k = (?old ++ ob) k) \<and>
      (is_glyph (field (?old ++ ob) ''char'') \<longrightarrow> ?cell = ?old ++ ob) \<and>
      (\<not> is_glyph (field (?old ++ ob) ''char'') \<longrightarrow> ?cell ''char'' = Some (Str '' ''))"
    by (auto simp: merge_out_def fix_char_other fix_char_glyph fix_char_empty)
  have vals: "\<forall>v. out = OutVal v \<longrightarrow>
      ?cell = ?old(''char'' \<mapsto> (if is_glyph v then v else Str '' ''))"
  proof (intro allI impI)
    fix v assume o: "out = OutVal v"
    have fld: "field (?old(''char'' \<mapsto> v)) ''char'' = v"
      by (simp add: field_def)
    show "?cell = ?old(''char'' \<mapsto> (if is_glyph v then v else Str '' ''))"
      by (cases "is_glyph v")
         (simp_all add: o merge_out_def fix_char_glyph fix_char_empty fld)
  qed
  have "is_glyph (Num 0) \<and> \<not> is_glyph Null \<and> \<not> is_glyph Undefined \<and> \<not> is_glyph (Str [])"
    by (simp add: is_glyph_def)
  with res objs vals show ?thesis
    by blast
qed

theorem main_cell_merge_witness:
  "red_main \<lparr>coord_x = 0, coord_y = 0, coord_index = 0 + 0 * ctx_cols sample_context\<rparr>
     sample_context sample_cursor [CellObj [''char'' \<mapsto> Str ''a'']]
     = Returns (OutObj [''color'' \<mapsto> Str ''red'']) [CellObj [''char'' \<mapsto> Str ''a'']] \<and>
   is_glyph (field (spread (js_read [CellObj [''char'' \<mapsto> Str ''a'']] 0)
                      ++ [''color'' \<mapsto> Str ''red'']) ''char'') \<and>
   main_cell red_main sample_context sample_cursor 0 0 [CellObj [''char'' \<mapsto> Str ''a'']]
     = Inr [CellObj ([''char'' \<mapsto> Str ''a''] ++ [''color'' \<mapsto> Str ''red''])] \<and>
   zero_main \<lparr>coord_x = 0, coord_y = 0, coord_index = 0 + 0 * ctx_cols sample_context\<rparr>
     sample_context sample_cursor [CellObj [''char'' \<mapsto> Str ''a'']]
     = Returns (OutVal (Num 0)) [CellObj [''char'' \<mapsto> Str ''a'']] \<and>
   main_cell zero_main sample_context sample_cursor 0 0 [CellObj [''char'' \<mapsto> Str ''a'']]
     = Inr [CellObj ([''char'' \<mapsto> Str ''a''](''char'' \<mapsto> Num 0))]"
proof -
  have r: "red_main \<lparr>coord_x = 0, coord_y = 0, coord_index = 0 + 0 * ctx_cols sample_context\<rparr>
             sample_context sample_cursor [CellObj [''char'' \<mapsto> Str ''a'']]
           = Returns (OutObj [''color'' \<mapsto> Str ''red'']) [CellObj [''char'' \<mapsto> Str ''a'']]"
    by (simp add: red_main_def)
  have z: "zero_main \<lparr>coord_x = 0, coord_y = 0, coord_index = 0 + 0 * ctx_cols sample_context\<rparr>
             sample_context sample_cursor [CellObj [''char'' \<mapsto> Str ''a'']]
           = Returns (OutVal (Num 0)) [CellObj [''char'' \<mapsto> Str ''a'']]"
    by (simp add: zero_main_def)
  have g: "is_glyph (field (spread (js_read [CellObj [''char'' \<mapsto> Str ''a'']] 0)
                              ++ [''color'' \<mapsto> Str ''red'']) ''char'')"
    by (simp add: js_read_def field_def is_glyph_def)
  show ?thesis
    using main_cell_merge [where f = red_main and i = 0 and j = 0 and c = sample_context
            and cur = sample_cursor and b = "[CellObj [''char'' \<mapsto> Str ''a'']]"
            and out = "OutObj [''color'' \<mapsto> Str ''red'']"
            and b' = "[CellObj [''char'' \<mapsto> Str ''a'']]"]
          main_cell_merge [where f = zero_main and i = 0 and j = 0 and c = sample_context
            and cur = sample_cursor and b = "[CellObj [''char'' \<mapsto> Str ''a'']]"
            and out = "OutVal (Num 0)"
            and b' = "[CellObj [''char'' \<mapsto> Str ''a'']]"]
          r z g
    by (auto simp: js_read_def js_write_def)
qed

section \<open>The buffer of the runner\<close>







lemma cell_index_less:
  assumes "i < nc" "j < nr"
  shows "i + j * nc < nc * (nr :: nat)"
proof -
  have "i + j * nc < nc + j * nc" using assms by simp
  also have "\<dots> = nc * Suc j" by simp
  also have "\<dots> \<le> nc * nr" using assms by (intro mult_le_mono2) simp
  finally show ?thesis .
qed









section \<open>mergeText\<close>

lemma in_grid_index:
  assumes "in_grid x y ncols nrows"
  shows "0 \<le> x + y * ncols"
proof -
  have "0 \<le> y * ncols" using assms by (simp add: in_grid_def)
  then show ?thesis using assms by (simp add: in_grid_def)
qed

lemma merge_read:
  "js_read (merge v x y tg ncols nrows) j
     = (if in_grid x y ncols nrows \<and> int j = x + y * ncols
        then CellObj (flatten (js_read tg j) ++ spread v)
        else js_read tg j)"
proof (cases "in_grid x y ncols nrows")
  case True
  then have nn: "0 \<le> x + y * ncols" by (rule in_grid_index)
  then have "(j = nat (x + y * ncols)) = (int j = x + y * ncols)" by auto
  then show ?thesis
    using True by (auto simp: merge_def in_grid_def Let_def js_read_write)
next
  case False
  then show ?thesis by (auto simp: merge_def in_grid_def)
qed

lemma merge_chars_read:
  "js_read (fst (fold (merge_char mo x row ncols nrows) (enumerate n line) (tg, c0))) j
     = (if int n \<le> int j - row * ncols - x \<and> int j - row * ncols - x < int n + int (length line)
           \<and> in_grid (int j - row * ncols) row ncols nrows
        then CellObj (flatten (js_read tg j)
               ++ char_fields mo (line ! nat (int j - row * ncols - x - int n)))
        else js_read tg j)"
proof (induction line arbitrary: n tg c0)
  case Nil
  then show ?case by auto
next
  case (Cons c line)
  let ?k = "int j - row * ncols - x"
  let ?tg1 = "merge (CellObj (char_fields mo c)) (x + int n) row tg ncols nrows"
  have step: "fold (merge_char mo x row ncols nrows) (enumerate n (c # line)) (tg, c0)
      = fold (merge_char mo x row ncols nrows) (enumerate (Suc n) line) (?tg1, x + int n)"
    by (simp add: merge_char_def Let_def)
  have r1: "js_read ?tg1 j
      = (if in_grid (x + int n) row ncols nrows \<and> ?k = int n
         then CellObj (flatten (js_read tg j) ++ char_fields mo c)
         else js_read tg j)"
    by (auto simp: merge_read)
  show ?case
  proof (cases "?k = int n")
    case True
    then have xk: "int j - row * ncols = x + int n" by simp
    show ?thesis
      unfolding step Cons.IH r1 using True by (simp add: xk)
  next
    case False
    have nth: "int (Suc n) \<le> ?k \<Longrightarrow> (c # line) ! nat (?k - int n) = line ! nat (?k - int (Suc n))"
    proof -
      assume "int (Suc n) \<le> ?k"
      then have "nat (?k - int n) = Suc (nat (?k - int (Suc n)))" by simp
      then show ?thesis by simp
    qed
    show ?thesis
      unfolding step Cons.IH r1 using False nth by auto
  qed
qed

lemma merge_chars_col:
  "snd (fold (merge_char mo x row ncols nrows) (enumerate n line) (tg, c0))
     = (if line = [] then c0 else x + int n + int (length line) - 1)"
  by (induction line arbitrary: n tg c0) (auto simp: merge_char_def Let_def)

lemma grid_row:
  "in_grid (int j - row * nc) row nc nr \<longleftrightarrow> 0 < nc \<and> row = int j div nc \<and> row < nr"
proof
  assume g: "in_grid (int j - row * nc) row nc nr"
  then have lo: "0 \<le> int j - row * nc" and hi: "int j - row * nc < nc" and r: "row < nr"
    by (simp_all add: in_grid_def)
  have pos: "0 < nc" using lo hi by simp
  have "int j = nc * row + (int j - row * nc)" by (simp add: algebra_simps)
  then have "int j div nc = row"
    using lo hi by (rule int_div_pos_eq)
  then show "0 < nc \<and> row = int j div nc \<and> row < nr"
    using pos r by simp
next
  assume a: "0 < nc \<and> row = int j div nc \<and> row < nr"
  then have "int j - row * nc = int j mod nc"
    by (simp add: minus_div_mult_eq_mod)
  moreover have "0 \<le> int j mod nc" "int j mod nc < nc" using a by simp_all
  moreover have "0 \<le> int j div nc" using a by (simp add: pos_imp_zdiv_nonneg_iff)
  ultimately show "in_grid (int j - row * nc) row nc nr"
    using a by (simp add: in_grid_def)
qed

lemma merge_line_read:
  "js_read (fst (merge_line mo x row nc nr line (tg, c0))) j
     = (if 0 < nc \<and> row = int j div nc \<and> row < nr \<and>
           x \<le> int j mod nc \<and> int j mod nc < x + int (length line)
        then CellObj (flatten (js_read tg j) ++ char_fields mo (line ! nat (int j mod nc - x)))
        else js_read tg j)"
proof (cases "0 < nc \<and> row = int j div nc \<and> row < nr")
  case True
  then have "int j - row * nc = int j mod nc"
    by (simp add: minus_div_mult_eq_mod)
  then have k: "int j - row * nc - x = int j mod nc - x" by simp
  have g: "in_grid (int j - row * nc) row nc nr"
    using True by (simp add: grid_row)
  show ?thesis
    unfolding merge_line_def merge_chars_read k using g True by auto
next
  case False
  then have "\<not> in_grid (int j - row * nc) row nc nr"
    by (simp add: grid_row)
  then show ?thesis
    unfolding merge_line_def merge_chars_read using False by auto
qed

lemma merge_text_line_fields:
  "mt_target (merge_text_line mo x nc nr line st)
     = fst (merge_line mo x (mt_row st) nc nr line (mt_target st, mt_col st))"
  "mt_col (merge_text_line mo x nc nr line st)
     = snd (merge_line mo x (mt_row st) nc nr line (mt_target st, mt_col st))"
  "mt_row (merge_text_line mo x nc nr line st) = mt_row st + 1"
  "mt_wrap (merge_text_line mo x nc nr line st)
     = mt_wrap st @
       [(get x (mt_row st) (mt_target (merge_text_line mo x nc nr line st)) nc nr,
         get (x + int (length line) - 1) (mt_row st)
           (mt_target (merge_text_line mo x nc nr line st)) nc nr)]"
  by (simp_all add: merge_text_line_def split_def Let_def)

lemma merge_lines_row:
  "mt_row (fold (merge_text_line mo x nc nr) ls st) = mt_row st + int (length ls)"
  by (induction ls arbitrary: st) (simp_all add: merge_text_line_fields)

lemma merge_lines_read:
  "js_read (mt_target (fold (merge_text_line mo x nc nr) ls st)) j
     = (if 0 < nc \<and> mt_row st \<le> int j div nc \<and> int j div nc < mt_row st + int (length ls) \<and>
           int j div nc < nr \<and> x \<le> int j mod nc \<and>
           int j mod nc < x + int (length (ls ! nat (int j div nc - mt_row st)))
        then CellObj (flatten (js_read (mt_target st) j)
               ++ char_fields mo (ls ! nat (int j div nc - mt_row st) ! nat (int j mod nc - x)))
        else js_read (mt_target st) j)"
proof (induction ls arbitrary: st)
  case Nil
  then show ?case by auto
next
  case (Cons line ls)
  let ?st1 = "merge_text_line mo x nc nr line st"
  let ?d = "int j div nc"
  have r1: "js_read (mt_target ?st1) j
      = (if 0 < nc \<and> mt_row st = ?d \<and> mt_row st < nr \<and>
            x \<le> int j mod nc \<and> int j mod nc < x + int (length line)
         then CellObj (flatten (js_read (mt_target st) j)
                ++ char_fields mo (line ! nat (int j mod nc - x)))
         else js_read (mt_target st) j)"
    by (simp add: merge_text_line_fields merge_line_read)
  have row1: "mt_row ?st1 = mt_row st + 1"
    by (simp add: merge_text_line_fields)
  have nth: "mt_row st < ?d \<Longrightarrow>
      (line # ls) ! nat (?d - mt_row st) = ls ! nat (?d - (mt_row st + 1))"
  proof -
    assume "mt_row st < ?d"
    then have "nat (?d - mt_row st) = Suc (nat (?d - (mt_row st + 1)))" by simp
    then show ?thesis by simp
  qed
  consider (lt) "?d < mt_row st" | (eq) "?d = mt_row st" | (gt) "mt_row st < ?d"
    by linarith
  then show ?case
  proof cases
    case lt
    then show ?thesis
      by (simp add: Cons.IH r1 row1)
  next
    case eq
    then show ?thesis
      by (simp add: Cons.IH r1 row1)
  next
    case gt
    then show ?thesis
      using nth by (simp add: Cons.IH r1 row1)
  qed
qed

lemma merge_line_col:
  "snd (merge_line mo x row nc nr line (tg, c0))
     = (if line = [] then c0 else x + int (length line) - 1)"
  by (simp add: merge_line_def merge_chars_col)

lemma merge_lines_col:
  "mt_col (fold (merge_text_line mo x nc nr) ls st)
     = (case rev (filter (\<lambda>l. l \<noteq> []) ls) of
          [] \<Rightarrow> mt_col st
        | l # earlier \<Rightarrow> x + int (length l) - 1)"
proof (induction ls arbitrary: st)
  case Nil
  then show ?case by simp
next
  case (Cons line ls)
  show ?case
    by (cases "rev (filter (\<lambda>l. l \<noteq> []) ls)")
       (simp_all add: Cons.IH merge_text_line_fields merge_line_col)
qed

lemma grid_cell_index:
  assumes "in_grid cx cy nc nr"
  shows "int (nat (cx + cy * nc)) = cx + cy * nc"
    and "int (nat (cx + cy * nc)) div nc = cy"
    and "int (nat (cx + cy * nc)) mod nc = cx"
    and "0 < nc"
proof -
  have nn: "0 \<le> cx + cy * nc" using assms by (rule in_grid_index)
  then show i: "int (nat (cx + cy * nc)) = cx + cy * nc" by simp
  have e: "int (nat (cx + cy * nc)) - cy * nc = cx" using nn by simp
  have "in_grid (int (nat (cx + cy * nc)) - cy * nc) cy nc nr"
    unfolding e by (rule assms)
  then have r: "0 < nc \<and> cy = int (nat (cx + cy * nc)) div nc \<and> cy < nr"
    by (simp only: grid_row)
  then show "int (nat (cx + cy * nc)) div nc = cy" and "0 < nc" by simp_all
  have "int (nat (cx + cy * nc)) mod nc = int (nat (cx + cy * nc)) - cy * nc"
    using r by (metis minus_div_mult_eq_mod)
  then show "int (nat (cx + cy * nc)) mod nc = cx" by (simp only: e)
qed

lemma get_stable:
  assumes "cy < mt_row st"
  shows "get cx cy (mt_target (fold (merge_text_line mo x nc nr) ls st)) nc nr
           = get cx cy (mt_target st) nc nr"
proof (cases "in_grid cx cy nc nr")
  case True
  then have g: "get cx cy tg nc nr = js_read tg (nat (cx + cy * nc))" for tg
    by (auto simp: get_def in_grid_def)
  show ?thesis
    unfolding g merge_lines_read using assms grid_cell_index(2) [OF True] by simp
next
  case False
  then show ?thesis by (auto simp: get_def in_grid_def)
qed

lemma merge_lines_wrap:
  "mt_wrap (fold (merge_text_line mo x nc nr) ls st)
     = mt_wrap st @
       map (\<lambda>l. (get x (mt_row st + int l)
                    (mt_target (fold (merge_text_line mo x nc nr) ls st)) nc nr,
                  get (x + int (length (ls ! l)) - 1) (mt_row st + int l)
                    (mt_target (fold (merge_text_line mo x nc nr) ls st)) nc nr))
         [0..<length ls]"
proof (induction ls arbitrary: st)
  case Nil
  then show ?case by simp
next
  case (Cons line ls)
  let ?st1 = "merge_text_line mo x nc nr line st"
  let ?fin = "mt_target (fold (merge_text_line mo x nc nr) ls ?st1)"
  have row1: "mt_row ?st1 = mt_row st + 1"
    by (simp add: merge_text_line_fields)
  have st: "get cx (mt_row st) ?fin nc nr = get cx (mt_row st) (mt_target ?st1) nc nr" for cx
    by (rule get_stable) (simp add: row1)
  have idx: "[0..<length (line # ls)] = 0 # map Suc [0..<length ls]"
    by (simp add: upt_conv_Cons map_Suc_upt del: upt_Suc)
  show ?case
    unfolding idx
    by (simp add: Cons.IH [of ?st1] merge_text_line_fields(4) [of mo x nc nr line st] st row1
          o_def algebra_simps)
qed

lemma split_on_nonempty: "split_on sep s \<noteq> []"
  by (induction s) (auto split: list.splits)

lemma get_in_grid:
  "in_grid cx cy nc nr \<Longrightarrow> get cx cy tg nc nr = js_read tg (nat (cx + cy * nc))"
  by (auto simp: get_def in_grid_def)

lemma mergeText_result:
  assumes tf: "text_and_fields arg = Inr (text, mo)"
  shows "\<exists>res target'.
     mergeText arg x y target nc nr = Inr (res, target') \<and>
     (\<forall>l k. l < length (split_on newline text) \<longrightarrow> k < length (split_on newline text ! l) \<longrightarrow>
        in_grid (x + int k) (y + int l) nc nr \<longrightarrow>
        get (x + int k) (y + int l) target' nc nr
          = CellObj (flatten (get (x + int k) (y + int l) target nc nr)
                       ++ char_fields mo (split_on newline text ! l ! k))) \<and>
     (\<forall>j. (\<forall>l k. l < length (split_on newline text) \<longrightarrow>
               k < length (split_on newline text ! l) \<longrightarrow>
               in_grid (x + int k) (y + int l) nc nr \<longrightarrow>
               int j \<noteq> x + int k + (y + int l) * nc) \<longrightarrow>
          js_read target' j = js_read target j) \<and>
     offset_col res = last_char_col x (split_on newline text) \<and>
     offset_row res = y + int (length (split_on newline text)) - 1 \<and>
     wrapInfo res
       = map (\<lambda>l. (get x (y + int l) target' nc nr,
                     get (x + int (length (split_on newline text ! l)) - 1) (y + int l)
                       target' nc nr))
           [0..<length (split_on newline text)]"
proof -
  let ?ls = "split_on newline text"
  let ?st0 = "\<lparr>mt_target = target, mt_col = x, mt_row = y, mt_wrap = []\<rparr>"
  let ?fin = "fold (merge_text_line mo x nc nr) ?ls ?st0"
  let ?res = "\<lparr>offset_col = mt_col ?fin, offset_row = max y (mt_row ?fin - 1),
               wrapInfo = mt_wrap ?fin\<rparr>"
  have run: "mergeText arg x y target nc nr = Inr (?res, mt_target ?fin)"
    by (simp add: mergeText_def tf Let_def)
  have cells: "\<forall>l k. l < length ?ls \<longrightarrow> k < length (?ls ! l) \<longrightarrow>
        in_grid (x + int k) (y + int l) nc nr \<longrightarrow>
        get (x + int k) (y + int l) (mt_target ?fin) nc nr
          = CellObj (flatten (get (x + int k) (y + int l) target nc nr)
                       ++ char_fields mo (?ls ! l ! k))"
  proof (intro allI impI)
    fix l k
    assume l: "l < length ?ls" and k: "k < length (?ls ! l)"
      and g: "in_grid (x + int k) (y + int l) nc nr"
    let ?j = "nat (x + int k + (y + int l) * nc)"
    note ix = grid_cell_index [OF g]
    have nr: "y + int l < nr" using g by (simp add: in_grid_def)
    show "get (x + int k) (y + int l) (mt_target ?fin) nc nr
          = CellObj (flatten (get (x + int k) (y + int l) target nc nr)
                       ++ char_fields mo (?ls ! l ! k))"
      unfolding get_in_grid [OF g] merge_lines_read
      using l k nr ix by simp
  qed
  have rest: "\<forall>j. (\<forall>l k. l < length ?ls \<longrightarrow> k < length (?ls ! l) \<longrightarrow>
               in_grid (x + int k) (y + int l) nc nr \<longrightarrow>
               int j \<noteq> x + int k + (y + int l) * nc) \<longrightarrow>
          js_read (mt_target ?fin) j = js_read target j"
  proof (intro allI impI)
    fix j
    assume no: "\<forall>l k. l < length ?ls \<longrightarrow> k < length (?ls ! l) \<longrightarrow>
               in_grid (x + int k) (y + int l) nc nr \<longrightarrow>
               int j \<noteq> x + int k + (y + int l) * nc"
    have "\<not> (0 < nc \<and> y \<le> int j div nc \<and> int j div nc < y + int (length ?ls) \<and>
             int j div nc < nr \<and> x \<le> int j mod nc \<and>
             int j mod nc < x + int (length (?ls ! nat (int j div nc - y))))"
    proof
      assume c: "0 < nc \<and> y \<le> int j div nc \<and> int j div nc < y + int (length ?ls) \<and>
             int j div nc < nr \<and> x \<le> int j mod nc \<and>
             int j mod nc < x + int (length (?ls ! nat (int j div nc - y)))"
      let ?l = "nat (int j div nc - y)" and ?k = "nat (int j mod nc - x)"
      have yl: "y + int ?l = int j div nc" and xk: "x + int ?k = int j mod nc"
        using c by linarith+
      have l: "?l < length ?ls" using c by linarith
      have k: "?k < length (?ls ! ?l)" using c by linarith
      have "0 \<le> int j div nc" using c by (simp add: pos_imp_zdiv_nonneg_iff)
      moreover have "0 \<le> int j mod nc" "int j mod nc < nc" using c by simp_all
      ultimately have g: "in_grid (x + int ?k) (y + int ?l) nc nr"
        unfolding yl xk using c by (simp add: in_grid_def)
      have "int j = x + int ?k + (y + int ?l) * nc"
        unfolding yl xk by simp
      then show False using no l k g by blast
    qed
    then show "js_read (mt_target ?fin) j = js_read target j"
      by (auto simp: merge_lines_read)
  qed
  have col: "offset_col ?res = last_char_col x ?ls"
    by (simp add: merge_lines_col last_char_col_def split: list.splits)
  have "1 \<le> length ?ls"
    using split_on_nonempty [of newline "text"] by (cases ?ls) simp_all
  then have row: "offset_row ?res = y + int (length ?ls) - 1"
    by (simp add: merge_lines_row)
  have wrap: "wrapInfo ?res
       = map (\<lambda>l. (get x (y + int l) (mt_target ?fin) nc nr,
                     get (x + int (length (?ls ! l)) - 1) (y + int l) (mt_target ?fin) nc nr))
           [0..<length ?ls]"
    using merge_lines_wrap [of mo x nc nr ?ls ?st0] by simp
  show ?thesis
    using run cells rest col row wrap by blast
qed

lemma sample_text_lines: "split_on newline sample_text = [''AB'', ''CD'']"
  by (simp add: sample_text_def newline_def)

text \<open>
  Claim C9, as stated, fails: the offset returned is not the coordinate just past
  the last inserted character. For the text of the claim's own example the last
  character is inserted at column 1 of row 1, the coordinate just past it is
  column 2 of row 1, and the offset returned is column 1 of row 1.
\<close>

theorem mergeText_offset_counterexample:
  "\<not> isl (mergeText (TextStr sample_text) 0 0 sample_grid 2 2) \<and>
   offset_col (fst (projr (mergeText (TextStr sample_text) 0 0 sample_grid 2 2))) = 1 \<and>
   offset_row (fst (projr (mergeText (TextStr sample_text) 0 0 sample_grid 2 2))) = 1 \<and>
   just_past_last 0 0 sample_text = (2, 1)"
proof -
  obtain res target' where
    run: "mergeText (TextStr sample_text) 0 0 sample_grid 2 2 = Inr (res, target')"
    and col: "offset_col res = last_char_col 0 (split_on newline sample_text)"
    and row: "offset_row res = 0 + int (length (split_on newline sample_text)) - 1"
    using mergeText_result [of "TextStr sample_text" sample_text Map.empty 0 0 sample_grid 2 2]
    by (auto simp: text_and_fields_def)
  show ?thesis
    by (simp add: run col row sample_text_lines last_char_col_def just_past_last_def)
qed

text \<open>
  The column returned when the last line is not empty: that of its last
  character.
\<close>

lemma last_char_col_last:
  assumes "ls \<noteq> []" "last ls \<noteq> []"
  shows "last_char_col x ls = x + int (length (last ls)) - 1"
proof -
  have "ls = butlast ls @ [last ls]"
    using assms(1) by simp
  then have "rev (filter (\<lambda>l. l \<noteq> []) ls)
      = last ls # rev (filter (\<lambda>l. l \<noteq> []) (butlast ls))"
  proof -
    have "filter (\<lambda>l. l \<noteq> []) (butlast ls @ [last ls])
        = filter (\<lambda>l. l \<noteq> []) (butlast ls) @ [last ls]"
      using assms(2) by simp
    then show ?thesis
      using \<open>ls = butlast ls @ [last ls]\<close> by (metis rev_append rev_singleton_conv append_Cons append_Nil)
  qed
  then show ?thesis
    by (simp add: last_char_col_def)
qed

text \<open>
  Claim C9, amended. \<open>mergeText\<close> takes a plain string, or an object whose \<^verbatim>\<open>text\<close>
  is a string and whose other properties are the fields to merge. It splits the
  text on line breaks and, for each line, merges the characters from left to
  right into the buffer starting at column \<open>x\<close>, one row further down for each
  line: every character whose coordinate is in bounds is merged as
  \<^verbatim>\<open>{ char: c, ...fields }\<close> onto the entry there, and no other entry changes. When
  the last line is not empty, the offset returned is the coordinate of the last
  character (the column of the end of the last line, the row of the last line),
  not the one past it. With it come, for each line, the entries read back at its
  first column \<open>x\<close> and at its last column.
\<close>

theorem mergeText_layout:
  assumes "arg = TextStr tx \<and> mo = Map.empty \<or>
           arg = TextObj ob \<and> ob ''text'' = Some (Str tx) \<and> mo = ob(''text'' := None)"
  shows "\<exists>res target'.
     mergeText arg x y target nc nr = Inr (res, target') \<and>
     (\<forall>l k. l < length (split_on newline tx) \<longrightarrow> k < length (split_on newline tx ! l) \<longrightarrow>
        in_grid (x + int k) (y + int l) nc nr \<longrightarrow>
        get (x + int k) (y + int l) target' nc nr
          = CellObj (flatten (get (x + int k) (y + int l) target nc nr)
                       ++ char_fields mo (split_on newline tx ! l ! k))) \<and>
     (\<forall>j. (\<forall>l k. l < length (split_on newline tx) \<longrightarrow>
               k < length (split_on newline tx ! l) \<longrightarrow>
               in_grid (x + int k) (y + int l) nc nr \<longrightarrow>
               int j \<noteq> x + int k + (y + int l) * nc) \<longrightarrow>
          js_read target' j = js_read target j) \<and>
     (last (split_on newline tx) \<noteq> [] \<longrightarrow>
        offset_col res = x + int (length (last (split_on newline tx))) - 1 \<and>
        offset_row res = y + int (length (split_on newline tx)) - 1) \<and>
     wrapInfo res
       = map (\<lambda>l. (get x (y + int l) target' nc nr,
                     get (x + int (length (split_on newline tx ! l)) - 1) (y + int l)
                       target' nc nr))
           [0..<length (split_on newline tx)]"
proof -
  have tf: "text_and_fields arg = Inr (tx, mo)"
    using assms by (auto simp: text_and_fields_def field_def)
  have col: "last (split_on newline tx) \<noteq> [] \<longrightarrow>
      last_char_col x (split_on newline tx) = x + int (length (last (split_on newline tx))) - 1"
    using last_char_col_last [OF split_on_nonempty] by blast
  from mergeText_result [OF tf, of x y target nc nr] obtain res target' where
    "mergeText arg x y target nc nr = Inr (res, target')"
    "\<forall>l k. l < length (split_on newline tx) \<longrightarrow> k < length (split_on newline tx ! l) \<longrightarrow>
        in_grid (x + int k) (y + int l) nc nr \<longrightarrow>
        get (x + int k) (y + int l) target' nc nr
          = CellObj (flatten (get (x + int k) (y + int l) target nc nr)
                       ++ char_fields mo (split_on newline tx ! l ! k))"
    "\<forall>j. (\<forall>l k. l < length (split_on newline tx) \<longrightarrow>
               k < length (split_on newline tx ! l) \<longrightarrow>
               in_grid (x + int k) (y + int l) nc nr \<longrightarrow>
               int j \<noteq> x + int k + (y + int l) * nc) \<longrightarrow>
          js_read target' j = js_read target j"
    "offset_col res = last_char_col x (split_on newline tx)"
    "offset_row res = y + int (length (split_on newline tx)) - 1"
    "wrapInfo res
       = map (\<lambda>l. (get x (y + int l) target' nc nr,
                     get (x + int (length (split_on newline tx ! l)) - 1) (y + int l)
                       target' nc nr))
           [0..<length (split_on newline tx)]"
    by (elim exE conjE)
  then show ?thesis
    using col by (intro exI [of _ res] exI [of _ target']) simp
qed

theorem mergeText_layout_witness:
  "in_grid 0 0 2 2 \<and> in_grid 1 0 2 2 \<and> in_grid 0 1 2 2 \<and> in_grid 1 1 2 2 \<and>
   \<not> isl (mergeText (TextStr sample_text) 0 0 sample_grid 2 2) \<and>
   get 0 0 (snd (projr (mergeText (TextStr sample_text) 0 0 sample_grid 2 2))) 2 2
     = CellObj [''char'' \<mapsto> Str ''A''] \<and>
   get 1 0 (snd (projr (mergeText (TextStr sample_text) 0 0 sample_grid 2 2))) 2 2
     = CellObj [''char'' \<mapsto> Str ''B''] \<and>
   get 0 1 (snd (projr (mergeText (TextStr sample_text) 0 0 sample_grid 2 2))) 2 2
     = CellObj [''char'' \<mapsto> Str ''C''] \<and>
   get 1 1 (snd (projr (mergeText (TextStr sample_text) 0 0 sample_grid 2 2))) 2 2
     = CellObj [''char'' \<mapsto> Str ''D''] \<and>
   offset_col (fst (projr (mergeText (TextStr sample_text) 0 0 sample_grid 2 2))) = 1 \<and>
   offset_row (fst (projr (mergeText (TextStr sample_text) 0 0 sample_grid 2 2))) = 1 \<and>
   red_text ''text'' = Some (Str ''A'') \<and>
   \<not> isl (mergeText (TextObj red_text) 0 0 [CellObj Map.empty] 1 1) \<and>
   get_prop (get 0 0 (snd (projr (mergeText (TextObj red_text) 0 0 [CellObj Map.empty] 1 1)))
               1 1) ''char'' = Str ''A'' \<and>
   get_prop (get 0 0 (snd (projr (mergeText (TextObj red_text) 0 0 [CellObj Map.empty] 1 1)))
               1 1) ''color'' = Str ''red'' \<and>
   offset_col (fst (projr (mergeText (TextObj red_text) 0 0 [CellObj Map.empty] 1 1))) = 0 \<and>
   offset_row (fst (projr (mergeText (TextObj red_text) 0 0 [CellObj Map.empty] 1 1))) = 0"
proof -
  have "TextStr sample_text = TextStr sample_text \<and> (Map.empty :: obj) = Map.empty \<or>
        TextStr sample_text = TextObj Map.empty \<and> (Map.empty :: obj) ''text'' = Some (Str sample_text) \<and>
        (Map.empty :: obj) = Map.empty(''text'' := None)"
    by simp
  from mergeText_layout [OF this, of 0 0 sample_grid 2 2]
  obtain res target' where
    run: "mergeText (TextStr sample_text) 0 0 sample_grid 2 2 = Inr (res, target')"
    and cells: "\<And>l k. l < length (split_on newline sample_text) \<Longrightarrow>
        k < length (split_on newline sample_text ! l) \<Longrightarrow>
        in_grid (0 + int k) (0 + int l) 2 2 \<Longrightarrow>
        get (0 + int k) (0 + int l) target' 2 2
          = CellObj (flatten (get (0 + int k) (0 + int l) sample_grid 2 2)
                       ++ char_fields Map.empty (split_on newline sample_text ! l ! k))"
    and off: "last (split_on newline sample_text) \<noteq> [] \<longrightarrow>
        offset_col res = 0 + int (length (last (split_on newline sample_text))) - 1 \<and>
        offset_row res = 0 + int (length (split_on newline sample_text)) - 1"
    by blast
  have g: "in_grid 0 0 2 2" "in_grid 1 0 2 2" "in_grid 0 1 2 2" "in_grid 1 1 2 2"
    by (simp_all add: in_grid_def)
  have old: "\<And>cx cy. in_grid cx cy 2 2 \<Longrightarrow>
      flatten (get cx cy sample_grid 2 2) = [''char'' \<mapsto> Str '' '']"
    by (auto simp: get_in_grid in_grid_def sample_grid_def js_read_def flatten_def nat_less_iff)
  have c00: "get 0 0 target' 2 2 = CellObj [''char'' \<mapsto> Str ''A'']"
    using cells [of 0 0] old [OF g(1)] g(1) by (simp add: sample_text_lines char_fields_def)
  have c10: "get 1 0 target' 2 2 = CellObj [''char'' \<mapsto> Str ''B'']"
    using cells [of 0 1] old [OF g(2)] g(2) by (simp add: sample_text_lines char_fields_def)
  have c01: "get 0 1 target' 2 2 = CellObj [''char'' \<mapsto> Str ''C'']"
    using cells [of 1 0] old [OF g(3)] g(3) by (simp add: sample_text_lines char_fields_def)
  have c11: "get 1 1 target' 2 2 = CellObj [''char'' \<mapsto> Str ''D'']"
    using cells [of 1 1] old [OF g(4)] g(4) by (simp add: sample_text_lines char_fields_def)
  have t: "red_text ''text'' = Some (Str ''A'')"
    by (simp add: red_text_def)
  have ls: "split_on newline ''A'' = [''A'']"
    by (simp add: newline_def)
  have "TextObj red_text = TextStr ''A'' \<and> red_text(''text'' := None) = Map.empty \<or>
        TextObj red_text = TextObj red_text \<and> red_text ''text'' = Some (Str ''A'') \<and>
        red_text(''text'' := None) = red_text(''text'' := None)"
    using t by simp
  from mergeText_layout [OF this, of 0 0 "[CellObj Map.empty]" 1 1]
  obtain res2 target2 where
    run2: "mergeText (TextObj red_text) 0 0 [CellObj Map.empty] 1 1 = Inr (res2, target2)"
    and cells2: "\<And>l k. l < length (split_on newline ''A'') \<Longrightarrow>
        k < length (split_on newline ''A'' ! l) \<Longrightarrow>
        in_grid (0 + int k) (0 + int l) 1 1 \<Longrightarrow>
        get (0 + int k) (0 + int l) target2 1 1
          = CellObj (flatten (get (0 + int k) (0 + int l) [CellObj Map.empty] 1 1)
                       ++ char_fields (red_text(''text'' := None)) (split_on newline ''A'' ! l ! k))"
    and off2: "last (split_on newline ''A'') \<noteq> [] \<longrightarrow>
        offset_col res2 = 0 + int (length (last (split_on newline ''A''))) - 1 \<and>
        offset_row res2 = 0 + int (length (split_on newline ''A'')) - 1"
    by blast
  have "get 0 0 target2 1 1
      = CellObj (flatten (get 0 0 [CellObj Map.empty] 1 1)
                   ++ char_fields (red_text(''text'' := None)) CHR ''A'')"
    using cells2 [of 0 0] unfolding ls by (simp add: in_grid_def)
  then have p2: "get_prop (get 0 0 target2 1 1) ''char'' = Str ''A''"
                "get_prop (get 0 0 target2 1 1) ''color'' = Str ''red''"
    by (simp_all add: get_prop_def field_def char_fields_def red_text_def map_add_def)
  have o2: "offset_col res2 = 0 \<and> offset_row res2 = 0"
    using off2 unfolding ls by simp
  show ?thesis
    using g c00 c10 c01 c11 off t p2 o2
    by (simp add: run run2 sample_text_lines)
qed

lemma char_fields_apply:
  "char_fields mo c f
     = (if f \<in> dom mo then mo f else if f = ''char'' then Some (Str [c]) else None)"
  by (auto simp: char_fields_def map_add_def split: option.splits)

lemma flatten_text: "flatten e ''text'' \<noteq> None \<Longrightarrow> spread e ''text'' \<noteq> None"
  by (cases e) (simp_all add: flatten_def)

lemma text_fields_object:
  "ob ''text'' = Some (Str t) \<Longrightarrow> text_and_fields (TextObj ob) = Inr (t, ob(''text'' := None))"
  by (simp add: text_and_fields_def field_def)

text \<open>
  Claim C10, as stated, fails in its last part: a text object that carries a
  \<^verbatim>\<open>char\<close> field of its own gives every touched cell that \<^verbatim>\<open>char\<close>, not the
  character of the line. Merging \<^verbatim>\<open>{text: 'A', char: 'Z'}\<close> leaves the glyph
  \<^verbatim>\<open>'Z'\<close>.
\<close>

theorem mergeText_char_counterexample:
  "\<not> isl (mergeText (TextObj char_text) 0 0 [CellObj Map.empty] 1 1) \<and>
   split_on newline ''A'' = [''A''] \<and>
   get_prop (get 0 0 (snd (projr (mergeText (TextObj char_text) 0 0 [CellObj Map.empty] 1 1)))
               1 1) ''char'' = Str ''Z''"
proof -
  have tf: "text_and_fields (TextObj char_text) = Inr (''A'', char_text(''text'' := None))"
    by (rule text_fields_object) (simp add: char_text_def)
  have ls: "split_on newline ''A'' = [''A'']"
    by (simp add: newline_def)
  obtain res target' where
    run: "mergeText (TextObj char_text) 0 0 [CellObj Map.empty] 1 1 = Inr (res, target')"
    and cells: "\<And>l k. l < length (split_on newline ''A'') \<Longrightarrow>
        k < length (split_on newline ''A'' ! l) \<Longrightarrow>
        in_grid (0 + int k) (0 + int l) 1 1 \<Longrightarrow>
        get (0 + int k) (0 + int l) target' 1 1
          = CellObj (flatten (get (0 + int k) (0 + int l) [CellObj Map.empty] 1 1)
                       ++ char_fields (char_text(''text'' := None))
                            (split_on newline ''A'' ! l ! k))"
    using mergeText_result [OF tf, of 0 0 "[CellObj Map.empty]" 1 1] by blast
  have g: "in_grid (0 + int 0) (0 + int 0) 1 1"
    by (simp add: in_grid_def)
  have "get (0 + int 0) (0 + int 0) target' 1 1
          = CellObj (flatten (get (0 + int 0) (0 + int 0) [CellObj Map.empty] 1 1)
                       ++ char_fields (char_text(''text'' := None))
                            (split_on newline ''A'' ! 0 ! 0))"
    by (rule cells [OF _ _ g]) (simp_all only: ls, simp_all)
  then have "get 0 0 target' 1 1
          = CellObj (flatten (get 0 0 [CellObj Map.empty] 1 1)
                       ++ char_fields (char_text(''text'' := None)) CHR ''A'')"
    unfolding ls by simp
  then have "get_prop (get 0 0 target' 1 1) ''char'' = Str ''Z''"
    by (simp add: get_prop_def field_def char_fields_apply char_text_def map_add_def)
  then show ?thesis
    by (simp add: run newline_def)
qed

text \<open>
  Claim C10, amended. For every text object whose \<^verbatim>\<open>text\<close> is a string, the fields
  merged for each character are a copy of the object without \<^verbatim>\<open>text\<close>, so no
  buffer entry acquires a \<^verbatim>\<open>text\<close> field: an entry has one after the call only if
  it had one before. Each touched cell receives the remaining fields of the
  object, and the character of the line as \<^verbatim>\<open>char\<close> unless the object has a
  \<^verbatim>\<open>char\<close> field of its own; its other fields are those of the entry it is merged
  onto.
\<close>

theorem mergeText_strips_text:
  assumes str: "ob ''text'' = Some (Str t)"
  shows "\<exists>res target'.
     mergeText (TextObj ob) x y target nc nr = Inr (res, target') \<and>
     (\<forall>l k. l < length (split_on newline t) \<longrightarrow> k < length (split_on newline t ! l) \<longrightarrow>
        in_grid (x + int k) (y + int l) nc nr \<longrightarrow>
        (\<exists>cell. get (x + int k) (y + int l) target' nc nr = CellObj cell \<and>
           cell ''text'' = flatten (get (x + int k) (y + int l) target nc nr) ''text'' \<and>
           (\<forall>f. f \<noteq> ''text'' \<longrightarrow> f \<in> dom ob \<longrightarrow> cell f = ob f) \<and>
           (''char'' \<notin> dom ob \<longrightarrow> cell ''char'' = Some (Str [split_on newline t ! l ! k])) \<and>
           (\<forall>f. f \<noteq> ''char'' \<longrightarrow> f \<notin> dom ob \<longrightarrow>
              cell f = flatten (get (x + int k) (y + int l) target nc nr) f))) \<and>
     (\<forall>j. spread (js_read target' j) ''text'' \<noteq> None \<longrightarrow>
          spread (js_read target j) ''text'' \<noteq> None)"
proof -
  let ?mo = "ob(''text'' := None)"
  let ?ls = "split_on newline t"
  have tf: "text_and_fields (TextObj ob) = Inr (t, ?mo)"
    using str by (rule text_fields_object)
  obtain res target' where
    run: "mergeText (TextObj ob) x y target nc nr = Inr (res, target')"
    and cells: "\<And>l k. l < length ?ls \<Longrightarrow> k < length (?ls ! l) \<Longrightarrow>
        in_grid (x + int k) (y + int l) nc nr \<Longrightarrow>
        get (x + int k) (y + int l) target' nc nr
          = CellObj (flatten (get (x + int k) (y + int l) target nc nr)
                       ++ char_fields ?mo (?ls ! l ! k))"
    and rest: "\<And>j. (\<forall>l k. l < length ?ls \<longrightarrow> k < length (?ls ! l) \<longrightarrow>
               in_grid (x + int k) (y + int l) nc nr \<longrightarrow>
               int j \<noteq> x + int k + (y + int l) * nc) \<Longrightarrow>
          js_read target' j = js_read target j"
    using mergeText_result [OF tf, of x y target nc nr] by blast
  have merged: "\<And>old c.
      (old ++ char_fields ?mo c) ''text'' = old ''text'' \<and>
      (\<forall>f. f \<noteq> ''text'' \<longrightarrow> f \<in> dom ob \<longrightarrow> (old ++ char_fields ?mo c) f = ob f) \<and>
      (''char'' \<notin> dom ob \<longrightarrow> (old ++ char_fields ?mo c) ''char'' = Some (Str [c])) \<and>
      (\<forall>f. f \<noteq> ''char'' \<longrightarrow> f \<notin> dom ob \<longrightarrow> (old ++ char_fields ?mo c) f = old f)"
    by (auto simp: map_add_def char_fields_apply split: option.splits)
  have touched: "\<forall>l k. l < length ?ls \<longrightarrow> k < length (?ls ! l) \<longrightarrow>
        in_grid (x + int k) (y + int l) nc nr \<longrightarrow>
        (\<exists>cell. get (x + int k) (y + int l) target' nc nr = CellObj cell \<and>
           cell ''text'' = flatten (get (x + int k) (y + int l) target nc nr) ''text'' \<and>
           (\<forall>f. f \<noteq> ''text'' \<longrightarrow> f \<in> dom ob \<longrightarrow> cell f = ob f) \<and>
           (''char'' \<notin> dom ob \<longrightarrow> cell ''char'' = Some (Str [?ls ! l ! k])) \<and>
           (\<forall>f. f \<noteq> ''char'' \<longrightarrow> f \<notin> dom ob \<longrightarrow>
              cell f = flatten (get (x + int k) (y + int l) target nc nr) f))"
  proof (intro allI impI)
    fix l k
    assume l: "l < length ?ls" and k: "k < length (?ls ! l)"
      and g: "in_grid (x + int k) (y + int l) nc nr"
    let ?old = "flatten (get (x + int k) (y + int l) target nc nr)"
    let ?cell = "?old ++ char_fields ?mo (?ls ! l ! k)"
    have "get (x + int k) (y + int l) target' nc nr = CellObj ?cell"
      by (rule cells [OF l k g])
    with merged [of ?old "?ls ! l ! k"]
    show "\<exists>cell. get (x + int k) (y + int l) target' nc nr = CellObj cell \<and>
           cell ''text'' = ?old ''text'' \<and>
           (\<forall>f. f \<noteq> ''text'' \<longrightarrow> f \<in> dom ob \<longrightarrow> cell f = ob f) \<and>
           (''char'' \<notin> dom ob \<longrightarrow> cell ''char'' = Some (Str [?ls ! l ! k])) \<and>
           (\<forall>f. f \<noteq> ''char'' \<longrightarrow> f \<notin> dom ob \<longrightarrow> cell f = ?old f)"
      by (intro exI [of _ ?cell] conjI) simp_all
  qed
  have no_text: "\<forall>j. spread (js_read target' j) ''text'' \<noteq> None \<longrightarrow>
          spread (js_read target j) ''text'' \<noteq> None"
  proof (intro allI impI)
    fix j
    assume has: "spread (js_read target' j) ''text'' \<noteq> None"
    show "spread (js_read target j) ''text'' \<noteq> None"
    proof (cases "\<forall>l k. l < length ?ls \<longrightarrow> k < length (?ls ! l) \<longrightarrow>
               in_grid (x + int k) (y + int l) nc nr \<longrightarrow>
               int j \<noteq> x + int k + (y + int l) * nc")
      case True
      then show ?thesis using rest [of j] has by simp
    next
      case False
      then obtain l k where l: "l < length ?ls" and k: "k < length (?ls ! l)"
        and g: "in_grid (x + int k) (y + int l) nc nr"
        and j: "int j = x + int k + (y + int l) * nc"
        by blast
      have jn: "j = nat (x + int k + (y + int l) * nc)" using j by simp
      have "js_read target' j
              = CellObj (flatten (js_read target j) ++ char_fields ?mo (?ls ! l ! k))"
        using cells [OF l k g] by (simp add: get_in_grid [OF g] jn)
      then have "flatten (js_read target j) ''text'' \<noteq> None"
        using has merged by simp
      then show ?thesis by (rule flatten_text)
    qed
  qed
  show ?thesis
    using run touched no_text by blast
qed

theorem mergeText_strips_text_witness:
  "red_text ''text'' = Some (Str ''A'') \<and> in_grid 0 0 1 1 \<and> ''char'' \<notin> dom red_text \<and>
   \<not> isl (mergeText (TextObj red_text) 0 0 [CellObj [''char'' \<mapsto> Str '' '']] 1 1) \<and>
   get_prop (get 0 0 (snd (projr (mergeText (TextObj red_text) 0 0
                                    [CellObj [''char'' \<mapsto> Str '' '']] 1 1))) 1 1) ''char''
     = Str ''A'' \<and>
   get_prop (get 0 0 (snd (projr (mergeText (TextObj red_text) 0 0
                                    [CellObj [''char'' \<mapsto> Str '' '']] 1 1))) 1 1) ''color''
     = Str ''red'' \<and>
   spread (js_read (snd (projr (mergeText (TextObj red_text) 0 0
                                  [CellObj [''char'' \<mapsto> Str '' '']] 1 1))) 0) ''text''
     = None"
proof -
  have t: "red_text ''text'' = Some (Str ''A'')"
    by (simp add: red_text_def)
  have ls: "split_on newline ''A'' = [''A'']"
    by (simp add: newline_def)
  have g: "in_grid (0 + int 0) (0 + int 0) 1 1"
    by (simp add: in_grid_def)
  have nochar: "''char'' \<notin> dom red_text" and color: "''color'' \<in> dom red_text"
    by (simp_all add: red_text_def)
  have "\<exists>res target'.
     mergeText (TextObj red_text) 0 0 [CellObj [''char'' \<mapsto> Str '' '']] 1 1
       = Inr (res, target') \<and>
     (\<forall>l k. l < length (split_on newline ''A'') \<longrightarrow>
        k < length (split_on newline ''A'' ! l) \<longrightarrow>
        in_grid (0 + int k) (0 + int l) 1 1 \<longrightarrow>
        (\<exists>cell. get (0 + int k) (0 + int l) target' 1 1 = CellObj cell \<and>
           cell ''text''
             = flatten (get (0 + int k) (0 + int l) [CellObj [''char'' \<mapsto> Str '' '']] 1 1)
                 ''text'' \<and>
           (\<forall>f. f \<noteq> ''text'' \<longrightarrow> f \<in> dom red_text \<longrightarrow> cell f = red_text f) \<and>
           (''char'' \<notin> dom red_text \<longrightarrow>
              cell ''char'' = Some (Str [split_on newline ''A'' ! l ! k])) \<and>
           (\<forall>f. f \<noteq> ''char'' \<longrightarrow> f \<notin> dom red_text \<longrightarrow>
              cell f
                = flatten (get (0 + int k) (0 + int l) [CellObj [''char'' \<mapsto> Str '' '']] 1 1)
                    f))) \<and>
     (\<forall>j. spread (js_read target' j) ''text'' \<noteq> None \<longrightarrow>
          spread (js_read [CellObj [''char'' \<mapsto> Str '' '']] j) ''text'' \<noteq> None)"
    by (rule mergeText_strips_text [where ob = red_text and t = "''A''" and x = 0 and y = 0
            and target = "[CellObj [''char'' \<mapsto> Str '' '']]" and nc = 1 and nr = 1])
       (rule t)
  then obtain res target' where
    run: "mergeText (TextObj red_text) 0 0 [CellObj [''char'' \<mapsto> Str '' '']] 1 1
            = Inr (res, target')"
    and touched: "\<forall>l k. l < length (split_on newline ''A'') \<longrightarrow>
        k < length (split_on newline ''A'' ! l) \<longrightarrow>
        in_grid (0 + int k) (0 + int l) 1 1 \<longrightarrow>
        (\<exists>cell. get (0 + int k) (0 + int l) target' 1 1 = CellObj cell \<and>
           cell ''text''
             = flatten (get (0 + int k) (0 + int l) [CellObj [''char'' \<mapsto> Str '' '']] 1 1)
                 ''text'' \<and>
           (\<forall>f. f \<noteq> ''text'' \<longrightarrow> f \<in> dom red_text \<longrightarrow> cell f = red_text f) \<and>
           (''char'' \<notin> dom red_text \<longrightarrow>
              cell ''char'' = Some (Str [split_on newline ''A'' ! l ! k])) \<and>
           (\<forall>f. f \<noteq> ''char'' \<longrightarrow> f \<notin> dom red_text \<longrightarrow>
              cell f
                = flatten (get (0 + int k) (0 + int l) [CellObj [''char'' \<mapsto> Str '' '']] 1 1)
                    f))"
    and no_text: "\<forall>j. spread (js_read target' j) ''text'' \<noteq> None \<longrightarrow>
          spread (js_read [CellObj [''char'' \<mapsto> Str '' '']] j) ''text'' \<noteq> None"
    by (elim exE conjE)
  have l0: "0 < length (split_on newline ''A'')" and k0: "0 < length (split_on newline ''A'' ! 0)"
    unfolding ls by simp_all
  from touched [rule_format, OF l0 k0 g]
  obtain cell where c: "get (0 + int 0) (0 + int 0) target' 1 1 = CellObj cell"
    and fields: "\<And>f. f \<noteq> ''text'' \<Longrightarrow> f \<in> dom red_text \<Longrightarrow> cell f = red_text f"
    and ch: "cell ''char'' = Some (Str [split_on newline ''A'' ! 0 ! 0])"
    using nochar unfolding ls by auto
  have "cell ''color'' = Some (Str ''red'')"
    using fields [of "''color''"] color by (simp add: red_text_def)
  moreover have "cell ''char'' = Some (Str ''A'')"
    using ch unfolding ls by simp
  moreover have "spread (js_read target' 0) ''text'' = None"
  proof -
    have "spread (js_read [CellObj [''char'' \<mapsto> Str '' '']] 0) ''text'' = None"
      by (simp add: js_read_def)
    then show ?thesis
      using no_text [rule_format, of 0] by blast
  qed
  ultimately show ?thesis
    using c t nochar by (simp add: run get_prop_def field_def in_grid_def)
qed

section \<open>The text renderer\<close>

lemma expand_lines_id: "n \<le> length ch \<Longrightarrow> expand_lines n ch = ch"
  by (simp add: expand_lines.simps)

lemma expand_lines_length: "length (expand_lines n ch) = max n (length ch)"
proof (induction n ch rule: expand_lines.induct)
  case (1 n ch)
  show ?case
  proof (cases "length ch < n")
    case True
    then show ?thesis
      using "1.IH" by (subst expand_lines.simps) simp
  next
    case False
    then show ?thesis by (simp add: expand_lines_id)
  qed
qed

lemma shorten_lines_id: "length ch \<le> n \<Longrightarrow> shorten_lines n ch = ch"
  by (simp add: shorten_lines.simps)

lemma shorten_lines_length: "length (shorten_lines n ch) = min n (length ch)"
proof (induction n ch rule: shorten_lines.induct)
  case (1 n ch)
  show ?case
  proof (cases "n < length ch")
    case True
    then show ?thesis
      using "1.IH" by (subst shorten_lines.simps) simp
  next
    case False
    then show ?thesis by (simp add: shorten_lines_id)
  qed
qed

lemma reconcile_length: "length (shorten_lines n (expand_lines n ch)) = n"
  by (simp add: shorten_lines_length expand_lines_length)

lemma reconcile_id: "length ch = n \<Longrightarrow> shorten_lines n (expand_lines n ch) = ch"
  by (simp add: shorten_lines_id expand_lines_id)

lemma check_cell_fst:
  "fst (check_cell buf offs i st)
     = (fst st \<or> \<not> isSameCell (js_read buf (i + offs)) (js_read (snd st) (i + offs)))"
  by (simp add: check_cell_def Let_def)

lemma check_cell_read:
  "js_read (snd (check_cell buf offs i st)) k
     = (if k = i + offs \<and> \<not> isSameCell (js_read buf k) (js_read (snd st) k)
        then CellObj (spread (js_read buf k)) else js_read (snd st) k)"
  by (auto simp: check_cell_def Let_def js_read_write)

lemma check_row_both:
  "(\<forall>k. js_read (snd (fold (check_cell buf offs) [0..<n] (u, back))) k
     = (if offs \<le> k \<and> k < offs + n \<and> \<not> isSameCell (js_read buf k) (js_read back k)
        then CellObj (spread (js_read buf k)) else js_read back k)) \<and>
   fst (fold (check_cell buf offs) [0..<n] (u, back))
     = (u \<or> (\<exists>i < n. \<not> isSameCell (js_read buf (i + offs)) (js_read back (i + offs))))"
proof (induction n)
  case 0
  then show ?case by auto
next
  case (Suc n)
  let ?st = "fold (check_cell buf offs) [0..<n] (u, back)"
  have rd: "\<And>k. js_read (snd ?st) k
     = (if offs \<le> k \<and> k < offs + n \<and> \<not> isSameCell (js_read buf k) (js_read back k)
        then CellObj (spread (js_read buf k)) else js_read back k)"
    and up: "fst ?st
     = (u \<or> (\<exists>i < n. \<not> isSameCell (js_read buf (i + offs)) (js_read back (i + offs))))"
    using Suc.IH by simp_all
  have at_n: "js_read (snd ?st) (n + offs) = js_read back (n + offs)"
    by (simp add: rd)
  have step: "fold (check_cell buf offs) [0..<Suc n] (u, back) = check_cell buf offs n ?st"
    by simp
  have r: "\<forall>k. js_read (snd (check_cell buf offs n ?st)) k
     = (if offs \<le> k \<and> k < offs + Suc n \<and> \<not> isSameCell (js_read buf k) (js_read back k)
        then CellObj (spread (js_read buf k)) else js_read back k)"
  proof
    fix k
    show "js_read (snd (check_cell buf offs n ?st)) k
     = (if offs \<le> k \<and> k < offs + Suc n \<and> \<not> isSameCell (js_read buf k) (js_read back k)
        then CellObj (spread (js_read buf k)) else js_read back k)"
    proof (cases "k = n + offs")
      case True
      then show ?thesis by (simp add: check_cell_read at_n)
    next
      case False
      then have "k < offs + Suc n \<longleftrightarrow> k < offs + n" by auto
      then show ?thesis using False by (simp add: check_cell_read rd)
    qed
  qed
  have f: "fst (check_cell buf offs n ?st)
     = (u \<or> (\<exists>i < Suc n. \<not> isSameCell (js_read buf (i + offs)) (js_read back (i + offs))))"
    by (auto simp: check_cell_fst at_n up less_Suc_eq)
  show ?case
    unfolding step using r f by blast
qed

lemma check_row_read:
  "js_read (snd (fold (check_cell buf offs) [0..<n] (u, back))) k
     = (if offs \<le> k \<and> k < offs + n \<and> \<not> isSameCell (js_read buf k) (js_read back k)
        then CellObj (spread (js_read buf k)) else js_read back k)"
  using check_row_both [of buf offs n u "back"] by blast

lemma check_row_flag:
  "fst (fold (check_cell buf (j * nc)) [0..<nc] (False, back)) = row_needs_update nc buf back j"
  using check_row_both [of buf "j * nc" nc False "back"] by (simp add: row_needs_update_def)

lemma render_row_fields:
  "backBuffer (render_row s nc buf j st)
     = snd (fold (check_cell buf (j * nc)) [0..<nc] (False, backBuffer st))"
  "tr_cols (render_row s nc buf j st) = tr_cols st"
  "tr_rows (render_row s nc buf j st) = tr_rows st"
  "length (children (render_row s nc buf j st)) = length (children st)"
  "mutations (render_row s nc buf j st)
     = mutations st @
       (if row_needs_update nc buf (backBuffer st) j \<and> j < length (children st) then [j] else [])"
  "children (render_row s nc buf j st)
     = (if row_needs_update nc buf (backBuffer st) j \<and> j < length (children st)
        then (children st)[j := row_html s buf nc (j * nc)] else children st)"
  by (simp_all add: render_row_def Let_def check_row_flag)

lemma row_needs_update_cong:
  assumes "\<And>i. i < nc \<Longrightarrow> js_read b1 (i + j * nc) = js_read b2 (i + j * nc)"
  shows "row_needs_update nc buf b1 j = row_needs_update nc buf b2 j"
  using assms by (auto simp: row_needs_update_def)

lemma render_rows:
  assumes "n \<le> length (children st)"
  shows "(\<forall>k. js_read (backBuffer (fold (render_row s nc buf) [0..<n] st)) k
            = (if k < n * nc \<and> \<not> isSameCell (js_read buf k) (js_read (backBuffer st) k)
               then CellObj (spread (js_read buf k)) else js_read (backBuffer st) k)) \<and>
         mutations (fold (render_row s nc buf) [0..<n] st)
           = mutations st @ filter (row_needs_update nc buf (backBuffer st)) [0..<n] \<and>
         length (children (fold (render_row s nc buf) [0..<n] st)) = length (children st) \<and>
         (\<forall>j. n \<le> j \<or> \<not> row_needs_update nc buf (backBuffer st) j \<longrightarrow>
              children (fold (render_row s nc buf) [0..<n] st) ! j = children st ! j) \<and>
         (\<forall>j. j < n \<and> row_needs_update nc buf (backBuffer st) j \<longrightarrow>
              children (fold (render_row s nc buf) [0..<n] st) ! j = row_html s buf nc (j * nc)) \<and>
         tr_cols (fold (render_row s nc buf) [0..<n] st) = tr_cols st \<and>
         tr_rows (fold (render_row s nc buf) [0..<n] st) = tr_rows st"
  using assms
proof (induction n)
  case 0
  then show ?case by simp
next
  case (Suc n)
  let ?stn = "fold (render_row s nc buf) [0..<n] st"
  let ?b0 = "backBuffer st"
  have n: "n \<le> length (children st)" using Suc.prems by simp
  note ih = Suc.IH [OF n]
  have rd: "\<And>k. js_read (backBuffer ?stn) k
            = (if k < n * nc \<and> \<not> isSameCell (js_read buf k) (js_read ?b0 k)
               then CellObj (spread (js_read buf k)) else js_read ?b0 k)"
    using ih by blast
  have mu: "mutations ?stn = mutations st @ filter (row_needs_update nc buf ?b0) [0..<n]"
    using ih by blast
  have len: "length (children ?stn) = length (children st)"
    using ih by blast
  have ch: "\<And>j. n \<le> j \<or> \<not> row_needs_update nc buf ?b0 j \<Longrightarrow>
              children ?stn ! j = children st ! j"
    using ih by blast
  have nw: "\<And>j. j < n \<and> row_needs_update nc buf ?b0 j \<Longrightarrow>
              children ?stn ! j = row_html s buf nc (j * nc)"
    using ih by blast
  have dims: "tr_cols ?stn = tr_cols st" "tr_rows ?stn = tr_rows st"
    using ih by blast+
  have step: "fold (render_row s nc buf) [0..<Suc n] st = render_row s nc buf n ?stn"
    by simp
  have same_row: "row_needs_update nc buf (backBuffer ?stn) n = row_needs_update nc buf ?b0 n"
    by (rule row_needs_update_cong) (simp add: rd)
  have nlt: "n < length (children ?stn)" using Suc.prems len by simp
  have rd': "\<forall>k. js_read (backBuffer (render_row s nc buf n ?stn)) k
            = (if k < Suc n * nc \<and> \<not> isSameCell (js_read buf k) (js_read ?b0 k)
               then CellObj (spread (js_read buf k)) else js_read ?b0 k)"
  proof
    fix k
    show "js_read (backBuffer (render_row s nc buf n ?stn)) k
            = (if k < Suc n * nc \<and> \<not> isSameCell (js_read buf k) (js_read ?b0 k)
               then CellObj (spread (js_read buf k)) else js_read ?b0 k)"
    proof (cases "k < n * nc")
      case True
      then show ?thesis
        by (simp add: render_row_fields(1) check_row_read rd)
    next
      case False
      then have "k < Suc n * nc \<longleftrightarrow> n * nc \<le> k \<and> k < n * nc + nc" by auto
      then show ?thesis
        using False by (simp add: render_row_fields(1) check_row_read rd)
    qed
  qed
  have mu': "mutations (render_row s nc buf n ?stn)
           = mutations st @ filter (row_needs_update nc buf ?b0) [0..<Suc n]"
    using nlt by (simp add: render_row_fields(5) same_row mu)
  have len': "length (children (render_row s nc buf n ?stn)) = length (children st)"
    by (simp add: render_row_fields(4) len)
  have ch': "\<forall>j. Suc n \<le> j \<or> \<not> row_needs_update nc buf ?b0 j \<longrightarrow>
              children (render_row s nc buf n ?stn) ! j = children st ! j"
  proof (intro allI impI)
    fix j
    assume a: "Suc n \<le> j \<or> \<not> row_needs_update nc buf ?b0 j"
    then have old: "children ?stn ! j = children st ! j"
      using ch [of j] by auto
    have "j = n \<Longrightarrow> \<not> row_needs_update nc buf ?b0 n" using a by auto
    then show "children (render_row s nc buf n ?stn) ! j = children st ! j"
      using old by (cases "j = n") (simp_all add: render_row_fields(6) same_row)
  qed
  have nw': "\<forall>j. j < Suc n \<and> row_needs_update nc buf ?b0 j \<longrightarrow>
              children (render_row s nc buf n ?stn) ! j = row_html s buf nc (j * nc)"
  proof (intro allI impI)
    fix j
    assume a: "j < Suc n \<and> row_needs_update nc buf ?b0 j"
    show "children (render_row s nc buf n ?stn) ! j = row_html s buf nc (j * nc)"
    proof (cases "j = n")
      case True
      then show ?thesis
        using a nlt by (simp add: render_row_fields(6) same_row)
    next
      case False
      then have "j < n" using a by simp
      then show ?thesis
        using a False nw [of j] by (simp add: render_row_fields(6) same_row)
    qed
  qed
  have dims': "tr_cols (render_row s nc buf n ?stn) = tr_cols st"
              "tr_rows (render_row s nc buf n ?stn) = tr_rows st"
    by (simp_all add: render_row_fields dims)
  show ?case
    unfolding step using rd' mu' len' ch' nw' dims' by blast
qed

lemma render_post:
  fixes s c buf st
  defines "b0 \<equiv> (if Some (ctx_rows c) \<noteq> tr_rows st \<or> Some (ctx_cols c) \<noteq> tr_cols st
                     then [] else backBuffer st)"
    and "ch0 \<equiv> shorten_lines (ctx_rows c) (expand_lines (ctx_rows c) (children st))"
  shows "(\<forall>k. js_read (backBuffer (render s c buf st)) k
            = (if k < ctx_rows c * ctx_cols c \<and> \<not> isSameCell (js_read buf k) (js_read b0 k)
               then CellObj (spread (js_read buf k)) else js_read b0 k)) \<and>
         mutations (render s c buf st)
           = mutations st @ filter (row_needs_update (ctx_cols c) buf b0) [0..<ctx_rows c] \<and>
         length (children (render s c buf st)) = ctx_rows c \<and>
         (\<forall>j. \<not> row_needs_update (ctx_cols c) buf b0 j \<longrightarrow>
              children (render s c buf st) ! j = ch0 ! j) \<and>
         (\<forall>j. j < ctx_rows c \<and> row_needs_update (ctx_cols c) buf b0 j \<longrightarrow>
              children (render s c buf st) ! j = row_html s buf (ctx_cols c) (j * ctx_cols c)) \<and>
         tr_cols (render s c buf st) = Some (ctx_cols c) \<and>
         tr_rows (render s c buf st) = Some (ctx_rows c)"
proof -
  let ?st1 = "if Some (ctx_rows c) \<noteq> tr_rows st \<or> Some (ctx_cols c) \<noteq> tr_cols st
              then st\<lparr>tr_cols := Some (ctx_cols c), tr_rows := Some (ctx_rows c),
                      backBuffer := []\<rparr>
              else st"
  let ?st2 = "?st1\<lparr>children := ch0\<rparr>"
  have run: "render s c buf st = fold (render_row s (ctx_cols c) buf) [0..<ctx_rows c] ?st2"
    by (simp add: render_def Let_def ch0_def)
  have f: "backBuffer ?st2 = b0" "mutations ?st2 = mutations st" "children ?st2 = ch0"
          "tr_cols ?st2 = Some (ctx_cols c)" "tr_rows ?st2 = Some (ctx_rows c)"
    by (auto simp: b0_def)
  have len: "ctx_rows c \<le> length (children ?st2)"
    by (simp add: ch0_def reconcile_length)
  have len0: "length ch0 = ctx_rows c"
    by (simp add: ch0_def reconcile_length)
  show ?thesis
    using render_rows [OF len, of s "ctx_cols c" buf]
    unfolding run f len0 by blast
qed

lemma isSameCell_iff:
  "isSameCell a b \<longleftrightarrow> is_object a \<and> is_object b \<and> \<not> cell_differs a b"
  by (auto simp: isSameCell_def cell_differs_def)

lemma isSameCell_copy: "is_object a \<Longrightarrow> isSameCell a (CellObj (spread a))"
  by (cases a) (simp_all add: isSameCell_iff cell_differs_def get_prop_def)

text \<open>
  Claim C2. Two consecutive frames \<open>f1\<close> and \<open>f2\<close> rendered at the same grid
  dimensions, each holding a cell object for every cell of the grid. In the
  second call the rows whose content is rewritten are, in order, exactly the rows
  with a cell that differs from its back buffer entry in glyph, color,
  background or weight; after the first call the back buffer agrees with \<open>f1\<close> on
  these four fields, so they are the rows in which \<open>f2\<close> differs from \<open>f1\<close>. A
  rewritten row receives the markup of its cells in \<open>f2\<close>. A row whose cells all
  match is skipped: its element keeps its content and its back buffer entries
  are as before. For two frames of 10 rows that differ in row 2 only, row 2 is
  the one row rewritten.
\<close>

theorem render_rewrites_changed_rows:
  assumes fr1: "is_frame (ctx_cols c) (ctx_rows c) f1"
    and fr2: "is_frame (ctx_cols c) (ctx_rows c) f2"
  shows "mutations (render s c f2 (render s c f1 st0))
           = mutations (render s c f1 st0) @
             filter (row_differs (ctx_cols c) f2 (backBuffer (render s c f1 st0)))
               [0..<ctx_rows c] \<and>
         (\<forall>j < ctx_rows c.
            row_differs (ctx_cols c) f2 (backBuffer (render s c f1 st0)) j
              = row_differs (ctx_cols c) f2 f1 j) \<and>
         (\<forall>j < ctx_rows c.
            row_differs (ctx_cols c) f2 (backBuffer (render s c f1 st0)) j \<longrightarrow>
              children (render s c f2 (render s c f1 st0)) ! j
                = row_html s f2 (ctx_cols c) (j * ctx_cols c)) \<and>
         (\<forall>j < ctx_rows c.
            \<not> row_differs (ctx_cols c) f2 (backBuffer (render s c f1 st0)) j \<longrightarrow>
              children (render s c f2 (render s c f1 st0)) ! j
                = children (render s c f1 st0) ! j \<and>
              (\<forall>i < ctx_cols c.
                 js_read (backBuffer (render s c f2 (render s c f1 st0))) (i + j * ctx_cols c)
                   = js_read (backBuffer (render s c f1 st0)) (i + j * ctx_cols c)))"
proof -
  let ?nc = "ctx_cols c" and ?nr = "ctx_rows c"
  let ?st1 = "render s c f1 st0"
  let ?st2 = "render s c f2 ?st1"
  let ?b1 = "backBuffer ?st1"
  define b0 where "b0 = (if Some ?nr \<noteq> tr_rows st0 \<or> Some ?nc \<noteq> tr_cols st0
                         then [] else backBuffer st0)"
  note p1 = render_post [of s c f1 st0, folded b0_def]
  have rd1: "\<And>k. js_read ?b1 k
            = (if k < ?nr * ?nc \<and> \<not> isSameCell (js_read f1 k) (js_read b0 k)
               then CellObj (spread (js_read f1 k)) else js_read b0 k)"
    using p1 by blast
  have dims1: "tr_cols ?st1 = Some ?nc" "tr_rows ?st1 = Some ?nr"
    and len1: "length (children ?st1) = ?nr"
    using p1 by blast+
  have shadow: "isSameCell (js_read f1 k) (js_read ?b1 k)" if "k < ?nc * ?nr" for k
  proof -
    have obj: "is_object (js_read f1 k)" using fr1 that by (simp add: is_frame_def)
    show ?thesis
      using that obj by (simp add: rd1 mult.commute isSameCell_copy)
  qed
  have keep: "(if Some ?nr \<noteq> tr_rows ?st1 \<or> Some ?nc \<noteq> tr_cols ?st1 then []
               else backBuffer ?st1) = ?b1"
    by (simp add: dims1)
  have ch: "shorten_lines ?nr (expand_lines ?nr (children ?st1)) = children ?st1"
    by (rule reconcile_id) (rule len1)
  note p2 = render_post [of s c f2 ?st1, unfolded keep ch]
  have rd2: "\<And>k. js_read (backBuffer ?st2) k
            = (if k < ?nr * ?nc \<and> \<not> isSameCell (js_read f2 k) (js_read ?b1 k)
               then CellObj (spread (js_read f2 k)) else js_read ?b1 k)"
    using p2 by blast
  have mu2: "mutations ?st2
           = mutations ?st1 @ filter (row_needs_update ?nc f2 ?b1) [0..<?nr]"
    using p2 by blast
  have same2: "\<And>j. \<not> row_needs_update ?nc f2 ?b1 j \<Longrightarrow>
              children ?st2 ! j = children ?st1 ! j"
    using p2 by blast
  have new2: "\<And>j. j < ?nr \<and> row_needs_update ?nc f2 ?b1 j \<Longrightarrow>
              children ?st2 ! j = row_html s f2 ?nc (j * ?nc)"
    using p2 by blast
  have cellwise: "\<not> isSameCell (js_read f2 (i + j * ?nc)) (js_read ?b1 (i + j * ?nc))
                    \<longleftrightarrow> cell_differs (js_read f2 (i + j * ?nc)) (js_read ?b1 (i + j * ?nc))"
    and cellwise1: "cell_differs (js_read f2 (i + j * ?nc)) (js_read ?b1 (i + j * ?nc))
                    = cell_differs (js_read f2 (i + j * ?nc)) (js_read f1 (i + j * ?nc))"
    if "i < ?nc" "j < ?nr" for i j
  proof -
    have k: "i + j * ?nc < ?nc * ?nr" using that by (rule cell_index_less)
    have o2: "is_object (js_read f2 (i + j * ?nc))"
      using fr2 k by (simp add: is_frame_def)
    have sh: "isSameCell (js_read f1 (i + j * ?nc)) (js_read ?b1 (i + j * ?nc))"
      using k by (rule shadow)
    then have o1: "is_object (js_read ?b1 (i + j * ?nc))"
      and nd: "\<not> cell_differs (js_read f1 (i + j * ?nc)) (js_read ?b1 (i + j * ?nc))"
      by (simp_all add: isSameCell_iff)
    show "\<not> isSameCell (js_read f2 (i + j * ?nc)) (js_read ?b1 (i + j * ?nc))
            \<longleftrightarrow> cell_differs (js_read f2 (i + j * ?nc)) (js_read ?b1 (i + j * ?nc))"
      using o1 o2 by (simp add: isSameCell_iff)
    have "\<not> cell_differs (js_read ?b1 (i + j * ?nc)) (js_read f1 (i + j * ?nc))"
      using nd by (auto simp: cell_differs_def)
    then show "cell_differs (js_read f2 (i + j * ?nc)) (js_read ?b1 (i + j * ?nc))
                 = cell_differs (js_read f2 (i + j * ?nc)) (js_read f1 (i + j * ?nc))"
      by (auto simp: cell_differs_def)
  qed
  have rows: "row_needs_update ?nc f2 ?b1 j = row_differs ?nc f2 ?b1 j" if "j < ?nr" for j
    using cellwise [OF _ that] by (auto simp: row_needs_update_def row_differs_def)
  have rows1: "row_differs ?nc f2 ?b1 j = row_differs ?nc f2 f1 j" if "j < ?nr" for j
    using cellwise1 [OF _ that] by (auto simp: row_differs_def)
  have "filter (row_needs_update ?nc f2 ?b1) [0..<?nr] = filter (row_differs ?nc f2 ?b1) [0..<?nr]"
    by (rule filter_cong) (simp_all add: rows)
  then have 1: "mutations ?st2 = mutations ?st1 @ filter (row_differs ?nc f2 ?b1) [0..<?nr]"
    using mu2 by simp
  have 2: "\<forall>j < ?nr. row_differs ?nc f2 ?b1 j = row_differs ?nc f2 f1 j"
    using rows1 by simp
  have 3: "\<forall>j < ?nr. row_differs ?nc f2 ?b1 j \<longrightarrow>
              children ?st2 ! j = row_html s f2 ?nc (j * ?nc)"
    using new2 rows by simp
  have 4: "\<forall>j < ?nr. \<not> row_differs ?nc f2 ?b1 j \<longrightarrow>
              children ?st2 ! j = children ?st1 ! j \<and>
              (\<forall>i < ?nc. js_read (backBuffer ?st2) (i + j * ?nc) = js_read ?b1 (i + j * ?nc))"
  proof (intro allI impI conjI)
    fix j assume j: "j < ?nr" and nd: "\<not> row_differs ?nc f2 ?b1 j"
    then have nu: "\<not> row_needs_update ?nc f2 ?b1 j" by (simp add: rows)
    show "children ?st2 ! j = children ?st1 ! j"
      using nu by (rule same2)
    fix i assume i: "i < ?nc"
    have "isSameCell (js_read f2 (i + j * ?nc)) (js_read ?b1 (i + j * ?nc))"
      using nu i by (auto simp: row_needs_update_def)
    then show "js_read (backBuffer ?st2) (i + j * ?nc) = js_read ?b1 (i + j * ?nc)"
      by (simp add: rd2)
  qed
  show ?thesis
    using 1 2 3 4 by blast
qed

lemma upt_10: "[0..<10] = [0, 1, 2, 3, 4, 5, 6, 7, 8, 9]"
  by (simp add: upt_rec)

lemma frame_a_read: "js_read frame_a k = (if k < 10 then CellObj [''char'' \<mapsto> Str ''a''] else Undef)"
  by (simp add: js_read_def frame_a_def)

lemma frame_b_read:
  "js_read frame_b k = (if k = 2 then CellObj [''char'' \<mapsto> Str ''b'']
                        else if k < 10 then CellObj [''char'' \<mapsto> Str ''a''] else Undef)"
  by (simp add: js_read_def frame_b_def frame_a_def)

theorem render_rewrites_changed_rows_witness:
  "mutations (render sample_settings ten_rows frame_b
                (render sample_settings ten_rows frame_a sample_renderer))
     = mutations (render sample_settings ten_rows frame_a sample_renderer) @ [2]"
proof -
  have dims: "ctx_cols ten_rows = 1" "ctx_rows ten_rows = 10"
    by (simp_all add: ten_rows_def)
  have fa: "is_frame (ctx_cols ten_rows) (ctx_rows ten_rows) frame_a"
    by (simp add: is_frame_def dims frame_a_read)
  have fb: "is_frame (ctx_cols ten_rows) (ctx_rows ten_rows) frame_b"
    by (simp add: is_frame_def dims frame_b_read)
  note th = render_rewrites_changed_rows [OF fa fb, of sample_settings sample_renderer]
  have m: "mutations (render sample_settings ten_rows frame_b
                        (render sample_settings ten_rows frame_a sample_renderer))
           = mutations (render sample_settings ten_rows frame_a sample_renderer) @
             filter (row_differs 1 frame_b
                       (backBuffer (render sample_settings ten_rows frame_a sample_renderer)))
               [0..<10]"
    and eq: "\<And>j. j < 10 \<Longrightarrow>
               row_differs 1 frame_b
                 (backBuffer (render sample_settings ten_rows frame_a sample_renderer)) j
               = row_differs 1 frame_b frame_a j"
    using th unfolding dims by blast+
  have "filter (row_differs 1 frame_b
                  (backBuffer (render sample_settings ten_rows frame_a sample_renderer))) [0..<10]
        = filter (row_differs 1 frame_b frame_a) [0..<10]"
    by (rule filter_cong [OF refl], rule eq) simp
  also have "\<dots> = [2]"
    unfolding upt_10
    by (simp add: row_differs_def cell_differs_def get_prop_def field_def
          frame_a_read frame_b_read)
  finally show ?thesis
    using m by simp
qed

end
